theory Spec2Isabelle
  imports Main
begin

chapter \<open>DroidClaw: skills, screen capture, voice sessions, pairing and goal admission\<close>

text \<open>
  A shallow embedding of the parts of the DroidClaw repository that the specification's
  testable properties talk about:
  \<^item> the skills module (\<^verbatim>\<open>executeSkill\<close> and the skills it routes to),
  \<^item> \<^verbatim>\<open>getScreenTree\<close> of the Android accessibility service,
  \<^item> the voice capture session handlers of \<^verbatim>\<open>server/src/ws/voice.ts\<close>,
  \<^item> the pairing routes of \<^verbatim>\<open>server/src/routes/pairing.ts\<close>,
  \<^item> the goal routes of \<^verbatim>\<open>server/src/routes/goals.ts\<close>.

  Conventions. A JavaScript string is a \<^typ>\<open>string\<close>, read as the bytes of its UTF-8
  text; case folding is the ASCII one (the regular expressions of the source carry the
  \<^verbatim>\<open>i\<close> flag without \<^verbatim>\<open>u\<close>, which folds ASCII letters only against ASCII
  patterns; \<^verbatim>\<open>toLowerCase\<close> also folds letters beyond ASCII, which the model leaves
  as they are). Screen coordinates and sizes are integers. Comparisons against a fraction
  of an integer (\<^verbatim>\<open>maxY * 0.8\<close>, \<^verbatim>\<open>screenWidth * 0.72\<close>) are written with exact
  integer arithmetic. A \<^verbatim>\<open>null\<close> or \<^verbatim>\<open>undefined\<close> value is \<^term>\<open>None\<close>.
\<close>

section \<open>Strings and arrays as JavaScript has them\<close>

definition lower_char :: "char \<Rightarrow> char" where
  "lower_char c =
     (let n = (of_char c :: nat) in if 65 \<le> n \<and> n \<le> 90 then char_of (n + 32) else c)"

definition toLowerCase :: "string \<Rightarrow> string" where
  "toLowerCase s = map lower_char s"

fun starts_with :: "string \<Rightarrow> string \<Rightarrow> bool" where
  "starts_with s [] = True"
| "starts_with [] (q # qs) = False"
| "starts_with (c # cs) (q # qs) = (c = q \<and> starts_with cs qs)"

text \<open>\<^verbatim>\<open>s.includes(q)\<close>: \<open>q\<close> occurs in \<open>s\<close> as a contiguous substring.\<close>

fun includes_str :: "string \<Rightarrow> string \<Rightarrow> bool" where
  "includes_str [] q = (q = [])"
| "includes_str (c # cs) q = (starts_with (c # cs) q \<or> includes_str cs q)"

text \<open>\<^verbatim>\<open>xs.join(sep)\<close>.\<close>

fun join :: "string \<Rightarrow> string list \<Rightarrow> string" where
  "join sep [] = []"
| "join sep [x] = x"
| "join sep (x # y # ys) = x @ sep @ join sep (y # ys)"

text \<open>
  \<^verbatim>\<open>xs.sort(cmp)\<close>: the sort of the JavaScript engine is stable, so for a comparator
  that orders by a key it returns what a stable insertion sort returns. \<open>cmp a b \<le> 0\<close>
  keeps \<open>a\<close> before \<open>b\<close>.
\<close>

fun insert_by :: "('a \<Rightarrow> 'a \<Rightarrow> int) \<Rightarrow> 'a \<Rightarrow> 'a list \<Rightarrow> 'a list" where
  "insert_by cmp x [] = [x]"
| "insert_by cmp x (y # ys) = (if cmp x y \<le> 0 then x # y # ys else y # insert_by cmp x ys)"

definition js_sort :: "('a \<Rightarrow> 'a \<Rightarrow> int) \<Rightarrow> 'a list \<Rightarrow> 'a list" where
  "js_sort cmp xs = foldr (insert_by cmp) xs []"

text \<open>\<^verbatim>\<open>String(n)\<close> for an integer: its decimal digits, with a sign when negative.\<close>

fun show_nat :: "nat \<Rightarrow> string" where
  "show_nat n =
     (if n < 10 then [char_of (48 + n)] else show_nat (n div 10) @ [char_of (48 + n mod 10)])"

declare show_nat.simps [simp del]

definition String_of :: "int \<Rightarrow> string" where
  "String_of i = (if i < 0 then CHR ''-'' # show_nat (nat (- i)) else show_nat (nat i))"

definition dquote :: string where
  "dquote = [CHR 0x22]"

section \<open>The skills module\<close>

subsection \<open>Data\<close>

text \<open>
  \<^verbatim>\<open>UIElement\<close> (declared in the sanitizer, which the skills import): the fields the
  skills read. \<open>center\<close> is \<open>[x, y]\<close>, \<open>size_el\<close> is \<open>[width, height]\<close>.
\<close>

record UIElement =
  id_el :: string
  text_el :: string
  hint :: string
  center :: "int \<times> int"
  size_el :: "int \<times> int"
  enabled :: bool
  clickable :: bool
  longClickable :: bool
  editable :: bool
  checked :: bool
  selected :: bool
  action :: string

text \<open>\<^verbatim>\<open>ActionDecision\<close>: the fields the skills read; an absent field is \<^term>\<open>None\<close>.\<close>

record ActionDecision =
  action_d :: string
  skill :: "string option"
  query :: "string option"
  text_d :: "string option"

text \<open>
  The \<^verbatim>\<open>data\<close> of an \<^verbatim>\<open>ActionResult\<close> is a string; where the source builds it
  with \<^verbatim>\<open>JSON.stringify\<close> the model keeps the object that is serialised.
\<close>

datatype payload =
    Text string
  | LikeData int int "nat option"
  | VerifyData bool "nat option"

record ActionResult =
  success :: bool
  message :: string
  data :: "payload option"

text \<open>
  What a skill does to the device: the commands it passes to \<^verbatim>\<open>runAdbCommand\<close>, its
  sleeps and its re-scans of the screen, in the order they happen.
\<close>

datatype effect =
    Swipe "int \<times> int \<times> int \<times> int"
  | Tap int int
  | SetClipboard string
  | StartSendTo string
  | KeyEvent nat
  | Sleep nat
  | Rescan

text \<open>The module-level variable \<^verbatim>\<open>lastCommentLikeAttempt\<close>.\<close>

record like_attempt =
  index_a :: nat
  y_a :: int
  x_a :: int
  countBefore :: "nat option"

text \<open>
  The world a skill runs in. \<open>screens k\<close> is what the \<open>k\<close>-th re-scan of the
  screen returns (the empty list when the capture fails, as \<^verbatim>\<open>rescanScreen\<close>
  returns then); \<open>scans\<close> counts the re-scans made so far; \<open>effects\<close> is the
  trace of what the skills did; \<open>upCoords\<close> is \<^verbatim>\<open>getSwipeCoords()["up"]\<close>.
  Commands sent to the device do not fail in this model.
\<close>

record world =
  screens :: "nat \<Rightarrow> UIElement list"
  scans :: nat
  effects :: "effect list"
  upCoords :: "int \<times> int \<times> int \<times> int"
  lastCommentLikeAttempt :: "like_attempt option"

definition runAdbCommand :: "effect \<Rightarrow> world \<Rightarrow> world" where
  "runAdbCommand e w = w\<lparr>effects := effects w @ [e]\<rparr>"

definition sleepSync :: "nat \<Rightarrow> world \<Rightarrow> world" where
  "sleepSync ms w = w\<lparr>effects := effects w @ [Sleep ms]\<rparr>"

definition safeClipboardSet :: "string \<Rightarrow> world \<Rightarrow> world" where
  "safeClipboardSet txt w = runAdbCommand (SetClipboard txt) w"

definition rescanScreen :: "world \<Rightarrow> UIElement list \<times> world" where
  "rescanScreen w =
     (screens w (scans w), w\<lparr>scans := Suc (scans w), effects := effects w @ [Rescan]\<rparr>)"

subsection \<open>Skill 4: find\_and\_tap\<close>

definition match_score :: "UIElement \<Rightarrow> string \<Rightarrow> int" where
  "match_score el queryLower =
     (if enabled el then 10 else 0)
     + (if clickable el \<or> longClickable el then 5 else 0)
     + (if toLowerCase (text_el el) = queryLower then 20 else 5)"

definition findMatch :: "UIElement list \<Rightarrow> string \<Rightarrow> UIElement option" where
  "findMatch elements queryLower =
     (let matches = filter (\<lambda>el. text_el el \<noteq> [] \<and> includes_str (toLowerCase (text_el el)) queryLower)
                      elements
      in if matches = [] then None
         else
           (let scored = map (\<lambda>el. (el, match_score el queryLower)) matches;
                sorted = js_sort (\<lambda>a b. snd b - snd a) scored
            in case sorted of [] \<Rightarrow> None | p # _ \<Rightarrow> Some (fst p)))"

text \<open>
  The scroll loop of \<^verbatim>\<open>findAndTap\<close>; the first argument is the number of iterations
  left (\<^verbatim>\<open>maxScrolls - i\<close>).
\<close>

fun scroll_search :: "nat \<Rightarrow> string \<Rightarrow> world \<Rightarrow> UIElement option \<times> world" where
  "scroll_search 0 queryLower w = (None, w)"
| "scroll_search (Suc n) queryLower w =
     (let w1 = runAdbCommand (Swipe (upCoords w)) w;
          w2 = sleepSync 1500 w1;
          (freshElements, w3) = rescanScreen w2
      in case findMatch freshElements queryLower of
           Some b \<Rightarrow> (Some b, w3)
         | None \<Rightarrow> scroll_search n queryLower w3)"

definition findAndTap :: "ActionDecision \<Rightarrow> UIElement list \<Rightarrow> world \<Rightarrow> ActionResult \<times> world" where
  "findAndTap decision elements w =
     (case query decision of
        None \<Rightarrow> (\<lparr>success = False, message = ''find_and_tap requires a query'', data = None\<rparr>, w)
      | Some q \<Rightarrow>
          if q = [] then
            (\<lparr>success = False, message = ''find_and_tap requires a query'', data = None\<rparr>, w)
          else
            (let queryLower = toLowerCase q;
                 (best, w1) = (case findMatch elements queryLower of
                                 Some b \<Rightarrow> (Some b, w)
                               | None \<Rightarrow> scroll_search 10 queryLower w)
             in case best of
                  None \<Rightarrow>
                    (let available = take 15 (map text_el (filter (\<lambda>el. text_el el \<noteq> []) elements))
                     in (\<lparr>success = False,
                          message = ''No element matching '' @ dquote @ q @ dquote
                            @ '' found after scrolling. Available: '' @ join '', '' available,
                          data = None\<rparr>, w1))
                | Some b \<Rightarrow>
                    (let (x, y) = center b;
                         w2 = runAdbCommand (Tap x y) w1
                     in (\<lparr>success = True,
                          message = ''Found and tapped '' @ dquote @ text_el b @ dquote
                            @ '' at ('' @ String_of x @ '', '' @ String_of y @ '')'',
                          data = Some (Text (text_el b))\<rparr>, w2))))"

subsection \<open>Skill 0: read\_screen\<close>

text \<open>
  \<^verbatim>\<open>collectTexts\<close>: \<open>allTexts\<close> and \<open>seenTexts\<close> always hold the same strings, so
  one list stands for both. Returns the new list and the number of texts added.
\<close>

fun collectTexts :: "UIElement list \<Rightarrow> string list \<Rightarrow> string list \<times> nat" where
  "collectTexts [] allTexts = (allTexts, 0)"
| "collectTexts (el # els) allTexts =
     (if text_el el \<noteq> [] \<and> text_el el \<notin> set allTexts then
        (let (allTexts', added) = collectTexts els (allTexts @ [text_el el])
         in (allTexts', Suc added))
      else collectTexts els allTexts)"

fun read_scroll :: "nat \<Rightarrow> string list \<Rightarrow> nat \<Rightarrow> world \<Rightarrow> string list \<times> nat \<times> world" where
  "read_scroll 0 allTexts scrollsDone w = (allTexts, scrollsDone, w)"
| "read_scroll (Suc n) allTexts scrollsDone w =
     (let w1 = runAdbCommand (Swipe (upCoords w)) w;
          w2 = sleepSync 1500 w1;
          (newElements, w3) = rescanScreen w2;
          (allTexts', added) = collectTexts newElements allTexts
      in if added = 0 then (allTexts', Suc scrollsDone, w3)
         else read_scroll n allTexts' (Suc scrollsDone) w3)"

definition newline :: string where
  "newline = [CHR 0x0A]"

definition readScreen :: "UIElement list \<Rightarrow> world \<Rightarrow> ActionResult \<times> world" where
  "readScreen elements w =
     (let (allTexts0, _) = collectTexts elements [];
          (allTexts, scrollsDone, w1) = read_scroll 5 allTexts0 0 w;
          combinedText = join newline allTexts;
          w2 = (if length combinedText > 0 then safeClipboardSet combinedText w1 else w1)
      in (\<lparr>success = True,
           message = ''Read '' @ String_of (int (length allTexts)) @ '' text elements across ''
             @ String_of (int scrollsDone) @ '' scrolls ('' @ String_of (int (length combinedText))
             @ '' chars), copied to clipboard'',
           data = Some (Text combinedText)\<rparr>, w2))"

subsection \<open>Skill 1: submit\_message\<close>

definition line_terminator :: "char \<Rightarrow> bool" where
  "line_terminator c = (c = CHR 0x0A \<or> c = CHR 0x0D)"

text \<open>\<^verbatim>\<open>paper.?plane\<close> somewhere in a lower-cased string.\<close>

fun paper_plane :: "string \<Rightarrow> bool" where
  "paper_plane [] = False"
| "paper_plane (c # cs) =
     ((starts_with (c # cs) ''paper'' \<and>
         (let r = drop 5 (c # cs)
          in starts_with r ''plane'' \<or>
             (case r of [] \<Rightarrow> False | d # r' \<Rightarrow> \<not> line_terminator d \<and> starts_with r' ''plane'')))
      \<or> paper_plane cs)"

text \<open>\<^verbatim>\<open>SEND_BUTTON_PATTERN.test(s)\<close> for \<^verbatim>\<open>/send|submit|post|arrow|paper.?plane/i\<close>.\<close>

definition SEND_BUTTON_PATTERN :: "string \<Rightarrow> bool" where
  "SEND_BUTTON_PATTERN s =
     (let l = toLowerCase s
      in includes_str l ''send'' \<or> includes_str l ''submit'' \<or> includes_str l ''post''
         \<or> includes_str l ''arrow'' \<or> paper_plane l)"

text \<open>The source's message has a dash (U+2014) here, written as its UTF-8 bytes.\<close>

definition em_dash :: string where
  "em_dash = [CHR 0xE2, CHR 0x80, CHR 0x94]"

definition submit_candidates :: "UIElement list \<Rightarrow> UIElement list" where
  "submit_candidates elements =
     (let candidates = filter (\<lambda>el. enabled el \<and> (clickable el \<or> action el = ''tap'')
                          \<and> (SEND_BUTTON_PATTERN (text_el el) \<or> SEND_BUTTON_PATTERN (id_el el)))
                        elements
      in if length candidates = 0 then
           (let screenBottom = js_sort (\<lambda>a b. snd (center b) - snd (center a))
                                 (filter (\<lambda>el. enabled el \<and> clickable el) elements)
            in case screenBottom of
                 [] \<Rightarrow> candidates
               | lowest # _ \<Rightarrow>
                   (let maxY = snd (center lowest)
                    in js_sort (\<lambda>a b. fst (center b) - fst (center a))
                         (filter (\<lambda>el. 5 * snd (center el) \<ge> 4 * maxY) screenBottom)))
         else candidates)"

definition submitMessage :: "UIElement list \<Rightarrow> world \<Rightarrow> ActionResult \<times> world" where
  "submitMessage elements w =
     (case submit_candidates elements of
        [] \<Rightarrow> (\<lparr>success = False, message = ''Could not find a Send/Submit button on screen'',
                 data = None\<rparr>, w)
      | target # _ \<Rightarrow>
          (let (x, y) = center target;
               w1 = runAdbCommand (Tap x y) w;
               w2 = sleepSync 6000 w1;
               (newElements, w3) = rescanScreen w2;
               originalTexts = filter (\<lambda>t. t \<noteq> []) (map text_el elements);
               newTexts = filter (\<lambda>t. t \<noteq> [] \<and> t \<notin> set originalTexts) (map text_el newElements)
           in if length newTexts > 0 then
                (let summary = join ''; '' (take 3 newTexts)
                 in (\<lparr>success = True,
                      message = ''Tapped '' @ dquote @ text_el target @ dquote
                        @ '' and new content appeared: '' @ summary,
                      data = Some (Text summary)\<rparr>, w3))
              else
                (\<lparr>success = True,
                  message = ''Tapped '' @ dquote @ text_el target @ dquote @ '' at (''
                    @ String_of x @ '', '' @ String_of y @ ''). No new content yet ''
                    @ em_dash @ '' may still be loading.'',
                  data = None\<rparr>, w3)))"

subsection \<open>Skill 2: copy\_visible\_text\<close>

text \<open>A string that JavaScript takes for true: present and not empty.\<close>

definition truthy :: "string option \<Rightarrow> bool" where
  "truthy s = (case s of None \<Rightarrow> False | Some t \<Rightarrow> t \<noteq> [])"

definition filter_by_query :: "string option \<Rightarrow> UIElement list \<Rightarrow> UIElement list" where
  "filter_by_query q els =
     (case q of
        None \<Rightarrow> els
      | Some t \<Rightarrow>
          if t = [] then els
          else filter (\<lambda>el. includes_str (toLowerCase (text_el el)) (toLowerCase t)) els)"

definition copyVisibleText :: "ActionDecision \<Rightarrow> UIElement list \<Rightarrow> world \<Rightarrow> ActionResult \<times> world" where
  "copyVisibleText decision elements w =
     (let readable = filter_by_query (query decision)
                       (filter (\<lambda>el. text_el el \<noteq> [] \<and> action el = ''read'') elements);
          textElements =
            (if length readable = 0 then
               filter_by_query (query decision) (filter (\<lambda>el. text_el el \<noteq> []) elements)
             else readable)
      in if length textElements = 0 then
           (\<lparr>success = False,
             message = (if truthy (query decision)
                        then ''No text matching '' @ dquote @ the (query decision) @ dquote
                               @ '' found on screen''
                        else ''No readable text found on screen''),
             data = None\<rparr>, w)
         else
           (let sorted = js_sort (\<lambda>a b. snd (center a) - snd (center b)) textElements;
                combinedText = join newline (map text_el sorted);
                w1 = safeClipboardSet combinedText w
            in (\<lparr>success = True,
                 message = ''Copied '' @ String_of (int (length sorted))
                   @ '' text elements to clipboard ('' @ String_of (int (length combinedText))
                   @ '' chars)'',
                 data = Some (Text combinedText)\<rparr>, w1)))"

subsection \<open>Skill 3: wait\_for\_content\<close>

text \<open>The polling loop: iterations left, the loop counter \<open>i\<close>, the texts seen at the start.\<close>

fun wait_poll :: "nat \<Rightarrow> nat \<Rightarrow> string list \<Rightarrow> world \<Rightarrow> ActionResult \<times> world" where
  "wait_poll 0 i originalTexts w =
     (\<lparr>success = False, message = ''No new content appeared after 15s'', data = None\<rparr>, w)"
| "wait_poll (Suc n) i originalTexts w =
     (let w1 = sleepSync 3000 w;
          (newElements, w2) = rescanScreen w1;
          newTexts = filter (\<lambda>t. t \<noteq> [] \<and> t \<notin> set originalTexts) (map text_el newElements);
          totalNewChars = sum_list (map length newTexts)
      in if totalNewChars > 20 then
           (let summary = join ''; '' (take 5 newTexts)
            in (\<lparr>success = True,
                 message = ''New content appeared after '' @ String_of (int ((i + 1) * 3))
                   @ ''s: '' @ summary,
                 data = Some (Text summary)\<rparr>, w2))
         else wait_poll n (Suc i) originalTexts w2)"

definition waitForContent :: "UIElement list \<Rightarrow> world \<Rightarrow> ActionResult \<times> world" where
  "waitForContent elements w =
     wait_poll 5 0 (filter (\<lambda>t. t \<noteq> []) (map text_el elements)) w"

subsection \<open>Skill 5: compose\_email\<close>

definition is_digit :: "char \<Rightarrow> bool" where
  "is_digit c = (let n = (of_char c :: nat) in 48 \<le> n \<and> n \<le> 57)"

text \<open>The class \<^verbatim>\<open>\w\<close>: ASCII letters, digits and the underscore.\<close>

definition word_char :: "char \<Rightarrow> bool" where
  "word_char c =
     (let n = (of_char c :: nat)
      in (48 \<le> n \<and> n \<le> 57) \<or> (65 \<le> n \<and> n \<le> 90) \<or> (97 \<le> n \<and> n \<le> 122) \<or> n = 95)"

definition local_char :: "char \<Rightarrow> bool" where
  "local_char c = (word_char c \<or> c = CHR ''.'' \<or> c = CHR ''+'' \<or> c = CHR ''-'')"

definition domain_char :: "char \<Rightarrow> bool" where
  "domain_char c = (word_char c \<or> c = CHR ''.'' \<or> c = CHR ''-'')"

text \<open>
  \<^verbatim>\<open>[\w.-]+\.\w{2,}\<close> at the start of a string. The greedy \<^verbatim>\<open>[\w.-]+\<close> gives
  characters back until a dot followed by two word characters is found, so the match ends
  at the last such dot inside the run; \<^verbatim>\<open>\w{2,}\<close> then takes all word characters.
\<close>

definition match_domain :: "string \<Rightarrow> string option" where
  "match_domain s =
     (let d = takeWhile domain_char s;
          ks = filter (\<lambda>k. d ! k = CHR ''.'' \<and> 2 \<le> length (takeWhile word_char (drop (Suc k) d)))
                 (rev [1..<length d])
      in case ks of
           [] \<Rightarrow> None
         | k # _ \<Rightarrow> Some (take (Suc k) d @ takeWhile word_char (drop (Suc k) d)))"

text \<open>
  \<^verbatim>\<open>[\w.+-]+@[\w.-]+\.\w{2,}\<close> at the start of a string: \<^verbatim>\<open>@\<close> is outside the
  first class, so the first part is the whole run of its characters.
\<close>

definition match_email_at :: "string \<Rightarrow> string option" where
  "match_email_at s =
     (let l = takeWhile local_char s
      in if l = [] then None
         else case dropWhile local_char s of
                [] \<Rightarrow> None
              | c # r \<Rightarrow>
                  if c = CHR ''@'' then map_option (\<lambda>d. l @ ''@'' @ d) (match_domain r)
                  else None)"

text \<open>\<^verbatim>\<open>extractEmail\<close>: the leftmost match.\<close>

fun extractEmail :: "string \<Rightarrow> string option" where
  "extractEmail [] = None"
| "extractEmail (c # cs) =
     (case match_email_at (c # cs) of Some m \<Rightarrow> Some m | None \<Rightarrow> extractEmail cs)"

text \<open>\<^verbatim>\<open>/body|compose_area|compose_edit|message_content/i\<close>.\<close>

definition BODY_FIELD_PATTERN :: "string \<Rightarrow> bool" where
  "BODY_FIELD_PATTERN s =
     (let l = toLowerCase s
      in includes_str l ''body'' \<or> includes_str l ''compose_area''
         \<or> includes_str l ''compose_edit'' \<or> includes_str l ''message_content'')"

text \<open>\<^verbatim>\<open>/compose|body|message|write/i\<close>.\<close>

definition BODY_HINT_PATTERN :: "string \<Rightarrow> bool" where
  "BODY_HINT_PATTERN s =
     (let l = toLowerCase s
      in includes_str l ''compose'' \<or> includes_str l ''body''
         \<or> includes_str l ''message'' \<or> includes_str l ''write'')"

definition findEmailField ::
  "UIElement list \<Rightarrow> (string \<Rightarrow> bool) \<Rightarrow> (string \<Rightarrow> bool) \<Rightarrow> UIElement option" where
  "findEmailField editables idPattern hintPattern =
     (case find (\<lambda>el. idPattern (id_el el)) editables of
        Some byId \<Rightarrow> Some byId
      | None \<Rightarrow>
          (case find (\<lambda>el. hint el \<noteq> [] \<and> hintPattern (hint el)) editables of
             Some byHint \<Rightarrow> Some byHint
           | None \<Rightarrow> find (\<lambda>el. idPattern (text_el el)) editables))"

definition resolve_address :: "ActionDecision \<Rightarrow> string option" where
  "resolve_address decision =
     (if \<not> truthy (query decision) \<and> truthy (text_d decision) then
        (case extractEmail (the (text_d decision)) of
           Some extracted \<Rightarrow> Some extracted
         | None \<Rightarrow> query decision)
      else query decision)"

definition composeEmail :: "ActionDecision \<Rightarrow> UIElement list \<Rightarrow> world \<Rightarrow> ActionResult \<times> world" where
  "composeEmail decision elements w =
     (let emailAddress = resolve_address decision;
          bodyContent = text_d decision
      in if \<not> truthy emailAddress then
           (\<lparr>success = False,
             message = ''compose_email requires query (email address). Example: {''
               @ dquote @ ''action'' @ dquote @ '': '' @ dquote @ ''compose_email'' @ dquote
               @ '', '' @ dquote @ ''query'' @ dquote @ '': '' @ dquote @ ''user@example.com''
               @ dquote @ ''}'',
             data = None\<rparr>, w)
         else
           (let w1 = runAdbCommand (StartSendTo (the emailAddress)) w;
                w2 = sleepSync 2500 w1;
                (freshElements, w3) = rescanScreen w2;
                editables = js_sort (\<lambda>a b. snd (center a) - snd (center b))
                              (filter (\<lambda>el. editable el \<and> enabled el) freshElements)
            in if length editables = 0 then
                 (\<lparr>success = False,
                   message = ''Launched email compose but no editable fields appeared'',
                   data = None\<rparr>, w3)
               else
                 (let bodyField = (case findEmailField editables BODY_FIELD_PATTERN BODY_HINT_PATTERN of
                                     Some f \<Rightarrow> f
                                   | None \<Rightarrow> last editables);
                      (bx, by) = center bodyField;
                      w4 = sleepSync 300 (runAdbCommand (Tap bx by) w3);
                      w5 = (if truthy bodyContent
                            then sleepSync 200 (safeClipboardSet (the bodyContent) w4)
                            else w4);
                      w6 = runAdbCommand (KeyEvent 279) w5
                  in (\<lparr>success = True,
                       message = ''Email compose opened to '' @ the emailAddress @ '', body pasted'',
                       data = None\<rparr>, w6))))"

subsection \<open>Skill 6: like\_nth\_comment and verify\_nth\_comment\_like\<close>

definition digits_value :: "string \<Rightarrow> nat" where
  "digits_value ds = foldl (\<lambda>acc c. 10 * acc + (of_char c - 48)) 0 ds"

text \<open>
  A number that \<^verbatim>\<open>Number.parseInt\<close> returns as a finite value: anything from
  \<open>2^1024 - 2^970\<close> on rounds to \<^verbatim>\<open>Infinity\<close>.
\<close>

definition is_finite :: "nat \<Rightarrow> bool" where
  "is_finite n = (n < 2 ^ 1024 - 2 ^ 970)"

text \<open>
  \<^verbatim>\<open>parseNthCommentIndex\<close>: the first run of digits (\<^verbatim>\<open>/\d+/\<close>) of the query, or of
  the text when there is no query; 3 when there is none, or when it is not positive.
\<close>

definition parseNthCommentIndex :: "ActionDecision \<Rightarrow> nat" where
  "parseNthCommentIndex decision =
     (let raw = (case query decision of
                   Some q \<Rightarrow> q
                 | None \<Rightarrow> (case text_d decision of Some t \<Rightarrow> t | None \<Rightarrow> []));
          m = takeWhile is_digit (dropWhile (\<lambda>c. \<not> is_digit c) raw)
      in if m = [] then 3
         else (let n = digits_value m in if is_finite n \<and> n > 0 then n else 3))"

text \<open>
  \<^verbatim>\<open>/\b\d[\d,]*\b/\<close> at the start of a string that a word boundary precedes: a digit,
  then the longest run of digits and commas that ends at a word boundary.
\<close>

definition boundary_at :: "string \<Rightarrow> nat \<Rightarrow> bool" where
  "boundary_at s e =
     (word_char (s ! (e - 1)) \<noteq> (if e < length s then word_char (s ! e) else False))"

definition match_int_at :: "string \<Rightarrow> string option" where
  "match_int_at s =
     (case s of
        [] \<Rightarrow> None
      | c # cs \<Rightarrow>
          if \<not> is_digit c then None
          else
            (let n = Suc (length (takeWhile (\<lambda>d. is_digit d \<or> d = CHR 0x2C) cs));
                 ends = filter (boundary_at s) (rev [1..<Suc n])
             in case ends of [] \<Rightarrow> None | e # _ \<Rightarrow> Some (take e s)))"

text \<open>The leftmost match; the flag says whether the character before is a word character.\<close>

fun first_int_from :: "bool \<Rightarrow> string \<Rightarrow> string option" where
  "first_int_from prevWord [] = None"
| "first_int_from prevWord (c # cs) =
     (case (if prevWord then None else match_int_at (c # cs)) of
        Some m \<Rightarrow> Some m
      | None \<Rightarrow> first_int_from (word_char c) cs)"

definition parseFirstInt :: "string \<Rightarrow> nat option" where
  "parseFirstInt txt =
     map_option (\<lambda>m. digits_value (filter (\<lambda>c. c \<noteq> CHR 0x2C) m)) (first_int_from False txt)"

text \<open>\<^verbatim>\<open>getScreenApprox\<close>: \<open>(width, height)\<close>.\<close>

definition getScreenApprox :: "UIElement list \<Rightarrow> int \<times> int" where
  "getScreenApprox elements =
     foldl (\<lambda>(maxX, maxY) el.
              (max maxX (fst (center el) + max 0 (fst (size_el el) div 2)),
               max maxY (snd (center el) + max 0 (snd (size_el el) div 2))))
       (1080, 2400) elements"

definition hay :: "UIElement \<Rightarrow> string" where
  "hay el = toLowerCase (text_el el @ '' '' @ id_el el @ '' '' @ hint el)"

definition isCommentLikeButton :: "UIElement \<Rightarrow> int \<Rightarrow> bool" where
  "isCommentLikeButton el screenWidth =
     (if \<not> includes_str (hay el) ''like'' then False
      else if includes_str (hay el) ''video like'' \<or> includes_str (hay el) ''like video''
              \<or> includes_str (hay el) ''repost'' then False
      else if 25 * fst (center el) < 18 * screenWidth then False
      else if snd (center el) < 900 then False
      else if snd (center el) > 2300 then False
      else clickable el \<or> action el = ''tap''
           \<or> includes_str (toLowerCase (text_el el)) ''like or undo like'')"

text \<open>\<^verbatim>\<open>rows.findIndex(p)\<close>, with \<^term>\<open>None\<close> for \<open>-1\<close>.\<close>

fun findIndex :: "('a \<Rightarrow> bool) \<Rightarrow> 'a list \<Rightarrow> nat option" where
  "findIndex p [] = None"
| "findIndex p (x # xs) = (if p x then Some 0 else map_option Suc (findIndex p xs))"

text \<open>The loop of \<^verbatim>\<open>collectCommentLikeRows\<close> over the candidates, with the rows so far.\<close>

fun dedupe_rows :: "UIElement list \<Rightarrow> UIElement list \<Rightarrow> UIElement list" where
  "dedupe_rows [] rows = rows"
| "dedupe_rows (el # els) rows =
     (case findIndex (\<lambda>r. \<bar>snd (center r) - snd (center el)\<bar> \<le> 24) rows of
        None \<Rightarrow> dedupe_rows els (rows @ [el])
      | Some existingIdx \<Rightarrow>
          if fst (center el) > fst (center (rows ! existingIdx))
          then dedupe_rows els (rows[existingIdx := el])
          else dedupe_rows els rows)"

definition collectCommentLikeRows :: "UIElement list \<Rightarrow> UIElement list" where
  "collectCommentLikeRows elements =
     (let width = fst (getScreenApprox elements);
          candidates = js_sort (\<lambda>a b. if snd (center a) - snd (center b) \<noteq> 0
                                       then snd (center a) - snd (center b)
                                       else fst (center b) - fst (center a))
                         (filter (\<lambda>el. isCommentLikeButton el width) elements)
      in js_sort (\<lambda>a b. snd (center a) - snd (center b)) (dedupe_rows candidates []))"

fun first_some :: "'a option list \<Rightarrow> 'a option" where
  "first_some [] = None"
| "first_some (None # xs) = first_some xs"
| "first_some (Some x # xs) = Some x"

definition findNearbyCommentCount :: "UIElement list \<Rightarrow> UIElement \<Rightarrow> nat option" where
  "findNearbyCommentCount elements target =
     (let nearby = filter (\<lambda>el.
                     if text_el el = [] then False
                     else if \<bar>snd (center el) - snd (center target)\<bar> > 70 then False
                     else if fst (center el) < fst (center target) - 180 then False
                     else if fst (center el) > fst (center target) + 40 then False
                     else True) elements
      in first_some (map (\<lambda>el. parseFirstInt (text_el el)) nearby))"

definition likeNthComment :: "ActionDecision \<Rightarrow> UIElement list \<Rightarrow> world \<Rightarrow> ActionResult \<times> world" where
  "likeNthComment decision elements w =
     (let index = parseNthCommentIndex decision;
          rows = collectCommentLikeRows elements
      in if length rows < index then
           (\<lparr>success = False,
             message = ''Only found '' @ String_of (int (length rows))
               @ '' visible comment-like buttons; need '' @ String_of (int index),
             data = None\<rparr>, w)
         else
           (let target = rows ! (index - 1);
                (x, y) = center target;
                countBefore = findNearbyCommentCount elements target;
                w1 = runAdbCommand (Tap x y) w;
                w2 = w1\<lparr>lastCommentLikeAttempt :=
                          Some \<lparr>index_a = index, y_a = y, x_a = x, countBefore = countBefore\<rparr>\<rparr>
            in (\<lparr>success = True,
                 message = ''Tapped heart for visible comment #'' @ String_of (int index)
                   @ '' at ('' @ String_of x @ '', '' @ String_of y @ '')'',
                 data = Some (LikeData x y countBefore)\<rparr>, w2)))"

text \<open>
  The row that \<^verbatim>\<open>verifyNthCommentLike\<close> inspects: the \<open>index\<close>-th row, or, when the
  last attempt was for the same \<open>index\<close>, the row nearest to the \<open>y\<close> tapped then if it
  lies within 80 pixels of it.
\<close>

definition verify_target :: "like_attempt option \<Rightarrow> nat \<Rightarrow> UIElement list \<Rightarrow> UIElement" where
  "verify_target attempt index rows =
     (let target = rows ! (index - 1)
      in case attempt of
           None \<Rightarrow> target
         | Some a \<Rightarrow>
             if index_a a = index then
               (case js_sort (\<lambda>p q. snd p - snd q)
                       (map (\<lambda>row. (row, \<bar>snd (center row) - y_a a\<bar>)) rows) of
                  [] \<Rightarrow> target
                | nearest # _ \<Rightarrow> if snd nearest \<le> 80 then fst nearest else target)
             else target)"

definition selectedLike :: "UIElement \<Rightarrow> bool" where
  "selectedLike target =
     (selected target \<or> checked target \<or> includes_str (hay target) ''undo like''
      \<or> includes_str (hay target) ''liked'')"

definition countChanged :: "like_attempt option \<Rightarrow> nat \<Rightarrow> nat option \<Rightarrow> bool" where
  "countChanged attempt index countNow =
     (case attempt of
        None \<Rightarrow> False
      | Some a \<Rightarrow>
          index_a a = index \<and> countBefore a \<noteq> None \<and> countNow \<noteq> None
          \<and> countNow \<noteq> countBefore a)"

definition verifyNthCommentLike ::
  "ActionDecision \<Rightarrow> UIElement list \<Rightarrow> world \<Rightarrow> ActionResult \<times> world" where
  "verifyNthCommentLike decision elements w =
     (let index = parseNthCommentIndex decision;
          rows = collectCommentLikeRows elements
      in if length rows < index then
           (\<lparr>success = False,
             message = ''Could not verify: only found '' @ String_of (int (length rows))
               @ '' visible comment-like buttons; need '' @ String_of (int index),
             data = None\<rparr>, w)
         else
           (let target = verify_target (lastCommentLikeAttempt w) index rows;
                countNow = findNearbyCommentCount elements target
            in if selectedLike target \<or> countChanged (lastCommentLikeAttempt w) index countNow then
                 (\<lparr>success = True,
                   message = ''Comment #'' @ String_of (int index) @ '' like verified (''
                     @ (if selectedLike target then ''selected'' else ''count changed'') @ '')'',
                   data = Some (VerifyData (selectedLike target) countNow)\<rparr>, w)
               else
                 (\<lparr>success = False,
                   message = ''Comment #'' @ String_of (int index) @ '' like not confirmed yet'',
                   data = Some (VerifyData (selectedLike target) countNow)\<rparr>, w)))"

subsection \<open>The dispatcher\<close>

definition executeSkill :: "ActionDecision \<Rightarrow> UIElement list \<Rightarrow> world \<Rightarrow> ActionResult \<times> world" where
  "executeSkill decision elements w =
     (let skill = (case skill decision of Some s \<Rightarrow> s | None \<Rightarrow> action_d decision)
      in if skill = ''read_screen'' then readScreen elements w
         else if skill = ''submit_message'' then submitMessage elements w
         else if skill = ''copy_visible_text'' then copyVisibleText decision elements w
         else if skill = ''wait_for_content'' then waitForContent elements w
         else if skill = ''find_and_tap'' then findAndTap decision elements w
         else if skill = ''compose_email'' then composeEmail decision elements w
         else if skill = ''like_nth_comment'' then likeNthComment decision elements w
         else if skill = ''verify_nth_comment_like'' then verifyNthCommentLike decision elements w
         else (\<lparr>success = False, message = ''Unknown skill: '' @ skill, data = None\<rparr>, w))"

section \<open>Screen capture of the accessibility service\<close>

text \<open>
  \<^verbatim>\<open>getScreenTree\<close> of \<^verbatim>\<open>DroidClawAccessibilityService\<close>. \<open>roots k\<close> is what
  \<^verbatim>\<open>rootInActiveWindow\<close> holds at its \<open>k\<close>-th read (\<^term>\<open>None\<close> for \<^verbatim>\<open>null\<close>),
  \<open>reads\<close> counts the reads so far, \<open>slept\<close> lists the delays waited so far, and
  \<^verbatim>\<open>ScreenTreeBuilder.capture\<close> is a parameter.
\<close>

record ('r, 'e) a11y =
  roots :: "nat \<Rightarrow> 'r option"
  reads :: nat
  slept :: "nat list"
  lastScreenTree :: "'e list"

definition delays :: "nat list" where
  "delays = [50, 100, 200, 300, 500]"

fun screen_tree_loop ::
  "('r \<Rightarrow> 'e list) \<Rightarrow> nat \<Rightarrow> nat list \<Rightarrow> ('r, 'e) a11y \<Rightarrow> 'e list \<times> ('r, 'e) a11y" where
  "screen_tree_loop capture lastDelay [] s = ([], s)"
| "screen_tree_loop capture lastDelay (delayMs # rest) s =
     (let root = roots s (reads s);
          s1 = s\<lparr>reads := Suc (reads s)\<rparr>
      in case root of
           None \<Rightarrow> screen_tree_loop capture lastDelay rest (s1\<lparr>slept := slept s1 @ [delayMs]\<rparr>)
         | Some r \<Rightarrow>
             (let elements = capture r
              in if elements = [] \<and> delayMs < lastDelay then
                   screen_tree_loop capture lastDelay rest (s1\<lparr>slept := slept s1 @ [delayMs]\<rparr>)
                 else (elements, s1\<lparr>lastScreenTree := elements\<rparr>)))"

definition getScreenTree :: "('r \<Rightarrow> 'e list) \<Rightarrow> ('r, 'e) a11y \<Rightarrow> 'e list \<times> ('r, 'e) a11y" where
  "getScreenTree capture s = screen_tree_loop capture (last delays) delays s"

section \<open>Voice capture sessions\<close>

text \<open>
  \<^verbatim>\<open>server/src/ws/voice.ts\<close>. The handlers run on one thread and give it up only at an
  \<^verbatim>\<open>await\<close>, so each event below is one uninterrupted piece of a handler: a message
  from the device, a firing of an interval timer, or the reply of a transcription request.
  A session is an object that the timer's closure keeps alive after it is removed from the
  map, so sessions live in a heap and the map holds references. A buffer is a list of
  bytes; a chunk arrives decoded. A web socket is named by a number. The API key only
  travels to the transcription service and is left out.
\<close>

type_synonym buffer = "char list"

record VoiceSession =
  chunks :: "buffer list"
  totalBytes :: nat
  partialTimer :: "nat option"
  lastPartialOffset :: nat

datatype message = transcript_partial string | transcript_final string

text \<open>
  A call of \<^verbatim>\<open>transcribeAudio\<close> that has not returned: the session, the web socket and
  the audio it was given, and for the final transcript the device id.
\<close>

datatype transcription =
    PartialCall nat nat buffer
  | FinalCall nat nat string buffer

record voice_state =
  heap :: "nat \<Rightarrow> VoiceSession option"
  activeSessions :: "string \<Rightarrow> nat option"
  timers :: "nat \<Rightarrow> (nat \<times> nat) option"
  calls :: "nat \<Rightarrow> transcription option"
  sent :: "(nat \<times> message) list"
  nextSession :: nat
  nextTimer :: nat
  nextCall :: nat

definition voice_init :: voice_state where
  "voice_init = \<lparr>heap = (\<lambda>_. None), activeSessions = (\<lambda>_. None), timers = (\<lambda>_. None),
     calls = (\<lambda>_. None), sent = [], nextSession = 0, nextTimer = 0, nextCall = 0\<rparr>"

text \<open>The period of the timer; a firing of the timer is an event of the model.\<close>

definition PARTIAL_INTERVAL_MS :: nat where
  "PARTIAL_INTERVAL_MS = 2000"

definition MIN_AUDIO_BYTES :: nat where
  "MIN_AUDIO_BYTES = 3200"

definition clearInterval :: "nat \<Rightarrow> voice_state \<Rightarrow> voice_state" where
  "clearInterval t s = s\<lparr>timers := (timers s)(t := None)\<rparr>"

definition sendToDevice :: "nat \<Rightarrow> message \<Rightarrow> voice_state \<Rightarrow> voice_state" where
  "sendToDevice ws msg s = s\<lparr>sent := sent s @ [(ws, msg)]\<rparr>"

definition concatChunks :: "buffer list \<Rightarrow> buffer" where
  "concatChunks cs = concat cs"

definition cleanupSession :: "string \<Rightarrow> voice_state \<Rightarrow> voice_state" where
  "cleanupSession deviceId s =
     (case activeSessions s deviceId of
        None \<Rightarrow> s
      | Some r \<Rightarrow>
          (let s1 = (case heap s r of
                       None \<Rightarrow> s
                     | Some session \<Rightarrow>
                         (case partialTimer session of
                            None \<Rightarrow> s
                          | Some t \<Rightarrow> clearInterval t s))
           in s1\<lparr>activeSessions := (activeSessions s1)(deviceId := None)\<rparr>))"

text \<open>
  \<^verbatim>\<open>handleVoiceStart\<close>: the new session gets a fresh reference, and
  \<^verbatim>\<open>setInterval\<close> a fresh timer whose closure holds the session and the web socket.
\<close>

definition handleVoiceStart :: "nat \<Rightarrow> string \<Rightarrow> voice_state \<Rightarrow> voice_state" where
  "handleVoiceStart ws deviceId s =
     (let s1 = cleanupSession deviceId s;
          r = nextSession s1;
          t = nextTimer s1;
          session = \<lparr>chunks = [], totalBytes = 0, partialTimer = Some t, lastPartialOffset = 0\<rparr>
      in s1\<lparr>heap := (heap s1)(r := Some session),
             activeSessions := (activeSessions s1)(deviceId := Some r),
             timers := (timers s1)(t := Some (r, ws)),
             nextSession := Suc r,
             nextTimer := Suc t\<rparr>)"

text \<open>The timer's callback up to its \<^verbatim>\<open>await\<close>; a cleared timer does not fire.\<close>

definition timer_fires :: "nat \<Rightarrow> voice_state \<Rightarrow> voice_state" where
  "timer_fires t s =
     (case timers s t of
        None \<Rightarrow> s
      | Some (r, ws) \<Rightarrow>
          (case heap s r of
             None \<Rightarrow> s
           | Some session \<Rightarrow>
               if totalBytes session \<le> lastPartialOffset session then s
               else if totalBytes session < MIN_AUDIO_BYTES then s
               else s\<lparr>calls := (calls s)(nextCall s :=
                                   Some (PartialCall r ws (concatChunks (chunks session)))),
                       nextCall := Suc (nextCall s)\<rparr>))"

definition handleVoiceChunk :: "string \<Rightarrow> buffer \<Rightarrow> voice_state \<Rightarrow> voice_state" where
  "handleVoiceChunk deviceId decoded s =
     (case activeSessions s deviceId of
        None \<Rightarrow> s
      | Some r \<Rightarrow>
          (case heap s r of
             None \<Rightarrow> s
           | Some session \<Rightarrow>
               s\<lparr>heap := (heap s)(r := Some (session\<lparr>chunks := chunks session @ [decoded],
                                        totalBytes := totalBytes session + length decoded\<rparr>))\<rparr>))"

text \<open>The end of \<^verbatim>\<open>handleVoiceSend\<close>, from \<^verbatim>\<open>sendToDevice\<close> on.\<close>

definition finish_send :: "nat \<Rightarrow> string \<Rightarrow> string \<Rightarrow> voice_state \<Rightarrow> voice_state" where
  "finish_send ws deviceId transcript s =
     (let s1 = sendToDevice ws (transcript_final transcript) s
      in s1\<lparr>activeSessions := (activeSessions s1)(deviceId := None)\<rparr>)"

text \<open>
  \<^verbatim>\<open>handleVoiceSend\<close> up to its \<^verbatim>\<open>await\<close>, or to its end when the audio is too
  short for a transcription.
\<close>

definition handleVoiceSend :: "nat \<Rightarrow> string \<Rightarrow> voice_state \<Rightarrow> voice_state" where
  "handleVoiceSend ws deviceId s =
     (case activeSessions s deviceId of
        None \<Rightarrow> s
      | Some r \<Rightarrow>
          (case heap s r of
             None \<Rightarrow> s
           | Some session \<Rightarrow>
               (let s1 = (case partialTimer session of
                            None \<Rightarrow> s
                          | Some t \<Rightarrow>
                              (clearInterval t s)\<lparr>heap := (heap s)(r :=
                                 Some (session\<lparr>partialTimer := None\<rparr>))\<rparr>)
                in if totalBytes session \<ge> MIN_AUDIO_BYTES then
                     s1\<lparr>calls := (calls s1)(nextCall s1 :=
                                   Some (FinalCall r ws deviceId (concatChunks (chunks session)))),
                        nextCall := Suc (nextCall s1)\<rparr>
                   else finish_send ws deviceId [] s1)))"

definition handleVoiceCancel :: "string \<Rightarrow> voice_state \<Rightarrow> voice_state" where
  "handleVoiceCancel deviceId s = cleanupSession deviceId s"

text \<open>
  What runs when a call of \<^verbatim>\<open>transcribeAudio\<close> returns: \<open>Some text\<close> is its result,
  \<^term>\<open>None\<close> an exception, which both callers catch and log.
\<close>

definition transcription_returns :: "nat \<Rightarrow> string option \<Rightarrow> voice_state \<Rightarrow> voice_state" where
  "transcription_returns c result s =
     (case calls s c of
        None \<Rightarrow> s
      | Some (PartialCall r ws pcm) \<Rightarrow>
          (let s1 = s\<lparr>calls := (calls s)(c := None)\<rparr>
           in case result of
                None \<Rightarrow> s1
              | Some txt \<Rightarrow>
                  (let s2 = (case heap s1 r of
                               None \<Rightarrow> s1
                             | Some session \<Rightarrow>
                                 s1\<lparr>heap := (heap s1)(r :=
                                    Some (session\<lparr>lastPartialOffset := totalBytes session\<rparr>))\<rparr>)
                   in if txt \<noteq> [] then sendToDevice ws (transcript_partial txt) s2 else s2))
      | Some (FinalCall r ws deviceId pcm) \<Rightarrow>
          finish_send ws deviceId (case result of None \<Rightarrow> [] | Some txt \<Rightarrow> txt)
            (s\<lparr>calls := (calls s)(c := None)\<rparr>))"

datatype event =
    VoiceStart nat string
  | VoiceChunk string buffer
  | VoiceSend nat string
  | VoiceCancel string
  | Tick nat
  | Reply nat "string option"

fun step :: "event \<Rightarrow> voice_state \<Rightarrow> voice_state" where
  "step (VoiceStart ws deviceId) s = handleVoiceStart ws deviceId s"
| "step (VoiceChunk deviceId decoded) s = handleVoiceChunk deviceId decoded s"
| "step (VoiceSend ws deviceId) s = handleVoiceSend ws deviceId s"
| "step (VoiceCancel deviceId) s = handleVoiceCancel deviceId s"
| "step (Tick t) s = timer_fires t s"
| "step (Reply c result) s = transcription_returns c result s"

definition run :: "event list \<Rightarrow> voice_state \<Rightarrow> voice_state" where
  "run evs s = foldl (\<lambda>s e. step e s) s evs"

definition partials :: "voice_state \<Rightarrow> (nat \<times> message) list" where
  "partials s = filter (\<lambda>(ws, m). case m of transcript_partial _ \<Rightarrow> True | _ \<Rightarrow> False) (sent s)"

definition finals :: "voice_state \<Rightarrow> (nat \<times> message) list" where
  "finals s = filter (\<lambda>(ws, m). case m of transcript_final _ \<Rightarrow> True | _ \<Rightarrow> False) (sent s)"

section \<open>Pairing codes\<close>

text \<open>
  \<^verbatim>\<open>server/src/routes/pairing.ts\<close>. The table \<^verbatim>\<open>pairing_code\<close> is a list of rows;
  times are milliseconds. The table's declaration is not among the sources; the design
  document of the pairing feature gives it a primary key \<^verbatim>\<open>id\<close> and a \<^verbatim>\<open>UNIQUE\<close>
  column \<^verbatim>\<open>code\<close>, so an insert that repeats either fails. \<open>issued\<close> lists the API
  keys that \<^verbatim>\<open>auth.api.createApiKey\<close> made, each with the user it was made for.
\<close>

record pairing_row =
  id_row :: string
  code :: string
  userId :: string
  expiresAt :: nat

record rate_entry =
  count :: nat
  resetAt :: nat

record pairing_state =
  pairingCode :: "pairing_row list"
  claimAttempts :: "string \<Rightarrow> rate_entry option"
  issued :: "(string \<times> string) list"
  WS_URL :: "string option"

definition pairing_init :: pairing_state where
  "pairing_init = \<lparr>pairingCode = [], claimAttempts = (\<lambda>_. None), issued = [], WS_URL = None\<rparr>"

definition isRateLimited :: "string \<Rightarrow> nat \<Rightarrow> pairing_state \<Rightarrow> bool \<times> pairing_state" where
  "isRateLimited ip now s =
     (case claimAttempts s ip of
        None \<Rightarrow>
          (False, s\<lparr>claimAttempts := (claimAttempts s)(ip := Some \<lparr>count = 1, resetAt = now + 60000\<rparr>)\<rparr>)
      | Some entry \<Rightarrow>
          if now > resetAt entry then
            (False, s\<lparr>claimAttempts := (claimAttempts s)(ip := Some \<lparr>count = 1, resetAt = now + 60000\<rparr>)\<rparr>)
          else
            (Suc (count entry) > 5,
             s\<lparr>claimAttempts := (claimAttempts s)(ip := Some (entry\<lparr>count := Suc (count entry)\<rparr>))\<rparr>))"

datatype create_response = Created string nat | CreateFailed

text \<open>
  \<^verbatim>\<open>POST /pairing/create\<close> for a user, at a time, with the random code and row id
  that the handler draws.
\<close>

definition pairing_create ::
  "string \<Rightarrow> nat \<Rightarrow> string \<Rightarrow> string \<Rightarrow> pairing_state \<Rightarrow> create_response \<times> pairing_state" where
  "pairing_create user now newCode newId s =
     (let kept = filter (\<lambda>r. userId r \<noteq> user) (pairingCode s);
          expires = now + 5 * 60000
      in if list_ex (\<lambda>r. code r = newCode \<or> id_row r = newId) kept then
           (CreateFailed, s\<lparr>pairingCode := kept\<rparr>)
         else
           (Created newCode expires,
            s\<lparr>pairingCode := kept @ [\<lparr>id_row = newId, code = newCode, userId = user,
                                       expiresAt = expires\<rparr>]\<rparr>))"

record status_response =
  paired :: bool
  expired :: "bool option"

text \<open>\<^verbatim>\<open>GET /pairing/status\<close> for a user, at a time.\<close>

definition pairing_status :: "string \<Rightarrow> nat \<Rightarrow> pairing_state \<Rightarrow> status_response" where
  "pairing_status user now s =
     (case filter (\<lambda>r. userId r = user) (pairingCode s) of
        [] \<Rightarrow> \<lparr>paired = True, expired = None\<rparr>
      | row # _ \<Rightarrow>
          if expiresAt row < now then \<lparr>paired = False, expired = Some True\<rparr>
          else \<lparr>paired = False, expired = Some False\<rparr>)"

definition white_space :: "char \<Rightarrow> bool" where
  "white_space c = (c = CHR '' '' \<or> c = CHR 0x09 \<or> c = CHR 0x0A \<or> c = CHR 0x0B
                    \<or> c = CHR 0x0C \<or> c = CHR 0x0D)"

definition trim :: "string \<Rightarrow> string" where
  "trim s = rev (dropWhile white_space (rev (dropWhile white_space s)))"

text \<open>\<^verbatim>\<open>/^\d{6}$/\<close>.\<close>

definition six_digits :: "string \<Rightarrow> bool" where
  "six_digits s = (length s = 6 \<and> list_all is_digit s)"

datatype claim_response =
    TooManyAttempts
  | InvalidFormat
  | InvalidOrExpired
  | Claimed string string
  | ServerError

text \<open>
  \<^verbatim>\<open>POST /pairing/claim\<close>: the address of the caller, the time the rate limiter
  reads, the time the look-up reads, the \<^verbatim>\<open>code\<close> of the body, and the key that
  \<^verbatim>\<open>createApiKey\<close> returns (\<^term>\<open>None\<close> when it throws, which ends the request
  before the row is deleted). The handler is run from its start to its end, so a claim
  is handled after the claims before it have ended.
\<close>

definition pairing_claim ::
  "string \<Rightarrow> nat \<Rightarrow> nat \<Rightarrow> string option \<Rightarrow> string option \<Rightarrow> pairing_state
     \<Rightarrow> claim_response \<times> pairing_state" where
  "pairing_claim ip limiterNow now bodyCode newKey s =
     (let (limited, s1) = isRateLimited ip limiterNow s
      in if limited then (TooManyAttempts, s1)
         else
           (let c = map_option trim bodyCode
            in if \<not> truthy c \<or> \<not> six_digits (the c) then (InvalidFormat, s1)
               else
                 (case filter (\<lambda>r. code r = the c \<and> expiresAt r > now) (pairingCode s1) of
                    [] \<Rightarrow> (InvalidOrExpired, s1)
                  | row # _ \<Rightarrow>
                      (case newKey of
                         None \<Rightarrow> (ServerError, s1)
                       | Some k \<Rightarrow>
                           (Claimed k (case WS_URL s1 of
                                         Some u \<Rightarrow> u
                                       | None \<Rightarrow> ''wss://tunnel.droidclaw.ai''),
                            s1\<lparr>issued := issued s1 @ [(userId row, k)],
                               pairingCode := filter (\<lambda>r. id_row r \<noteq> id_row row)
                                                (pairingCode s1)\<rparr>)))))"

datatype pairing_event =
    Create string nat string string
  | Claim string nat nat "string option" "string option"

fun pairing_step :: "pairing_event \<Rightarrow> pairing_state \<Rightarrow> pairing_state" where
  "pairing_step (Create user now newCode newId) s = snd (pairing_create user now newCode newId s)"
| "pairing_step (Claim ip limiterNow now bodyCode newKey) s =
     snd (pairing_claim ip limiterNow now bodyCode newKey s)"

definition pairing_run :: "pairing_event list \<Rightarrow> pairing_state \<Rightarrow> pairing_state" where
  "pairing_run evs s = foldl (\<lambda>s e. pairing_step e s) s evs"

fun creates_for :: "string \<Rightarrow> pairing_event \<Rightarrow> bool" where
  "creates_for user (Create u now newCode newId) = (u = user)"
| "creates_for user (Claim ip limiterNow now bodyCode newKey) = False"

section \<open>Goal submission\<close>

text \<open>
  \<^verbatim>\<open>server/src/routes/goals.ts\<close>, the route \<^verbatim>\<open>POST /\<close>. The registry of connected
  devices (\<^verbatim>\<open>sessions\<close>), the table of saved LLM configurations and the environment
  are parts of the state that the handler only reads. \<open>started\<close> lists the options of
  the agent loops started so far. The entry of \<^verbatim>\<open>activeSessions\<close> also holds an
  \<^verbatim>\<open>AbortController\<close>, which only the route \<^verbatim>\<open>POST /stop\<close> uses; it is left out.
\<close>

record device =
  deviceId :: string
  persistentDeviceId :: "string option"
  userId_dev :: string

record LLMConfig =
  provider :: string
  apiKey :: string
  model :: "string option"

record llm_config_row =
  userId_cfg :: string
  provider_cfg :: string
  apiKey_cfg :: string
  model_cfg :: "string option"

record goal_body =
  deviceId_b :: "string option"
  goal_b :: "string option"
  llmProvider :: "string option"
  llmApiKey :: "string option"
  llmModel :: "string option"
  maxSteps :: "nat option"

record AgentLoopOptions =
  deviceId_o :: string
  persistentDeviceId_o :: "string option"
  userId_o :: string
  goal_o :: string
  llmConfig :: LLMConfig
  maxSteps_o :: "nat option"

record active_session =
  sessionId :: string
  goal :: string

record goals_state =
  getDevice :: "string \<Rightarrow> device option"
  getDeviceByPersistentId :: "string \<Rightarrow> device option"
  llmConfigTable :: "llm_config_row list"
  LLM_PROVIDER :: "string option"
  LLM_API_KEY :: "string option"
  activeSessions_g :: "string \<Rightarrow> active_session option"
  started :: "AgentLoopOptions list"

datatype goal_response =
    BadRequest string
  | NotFound string
  | Forbidden string
  | Conflict string string string
  | Started string string string

definition trackingKey :: "device \<Rightarrow> string" where
  "trackingKey d = (case persistentDeviceId d of Some p \<Rightarrow> p | None \<Rightarrow> deviceId d)"

text \<open>
  \<^verbatim>\<open>sessions.getDevice(id) ?? sessions.getDeviceByPersistentId(id)\<close>: by connection
  id first, then by persistent id.
\<close>

definition find_device :: "string \<Rightarrow> goals_state \<Rightarrow> device option" where
  "find_device ident s =
     (case getDevice s ident of Some d \<Rightarrow> Some d | None \<Rightarrow> getDeviceByPersistentId s ident)"

text \<open>
  The handler up to the check of \<^verbatim>\<open>activeSessions\<close>: a response that ends the
  request, or the device the goal is for.
\<close>

definition goals_admit :: "string \<Rightarrow> goal_body \<Rightarrow> goals_state \<Rightarrow> goal_response + device" where
  "goals_admit user body s =
     (if \<not> truthy (deviceId_b body) \<or> \<not> truthy (goal_b body) then
        Inl (BadRequest ''deviceId and goal are required'')
      else
        (case find_device (the (deviceId_b body)) s of
           None \<Rightarrow> Inl (NotFound ''device not connected'')
         | Some d \<Rightarrow>
             if userId_dev d \<noteq> user then Inl (Forbidden ''device does not belong to you'')
             else
               (case activeSessions_g s (trackingKey d) of
                  Some existing \<Rightarrow>
                    Inl (Conflict ''agent already running on this device''
                           (sessionId existing) (goal existing))
                | None \<Rightarrow> Inr d)))"

text \<open>
  The LLM configuration: from the request body, else the user's saved one, else the
  environment's; \<^term>\<open>None\<close> when there is none.
\<close>

definition resolve_llm :: "string \<Rightarrow> goal_body \<Rightarrow> goals_state \<Rightarrow> LLMConfig option" where
  "resolve_llm user body s =
     (if truthy (llmApiKey body) then
        Some \<lparr>provider = (case llmProvider body of
                            Some p \<Rightarrow> p
                          | None \<Rightarrow> (case LLM_PROVIDER s of Some p \<Rightarrow> p | None \<Rightarrow> ''openai'')),
              apiKey = the (llmApiKey body),
              model = llmModel body\<rparr>
      else
        (case filter (\<lambda>r. userId_cfg r = user) (llmConfigTable s) of
           cfg # _ \<Rightarrow>
             Some \<lparr>provider = provider_cfg cfg, apiKey = apiKey_cfg cfg,
                   model = (case llmModel body of Some m \<Rightarrow> Some m | None \<Rightarrow> model_cfg cfg)\<rparr>
         | [] \<Rightarrow>
             if truthy (LLM_API_KEY s) then
               Some \<lparr>provider = (case LLM_PROVIDER s of Some p \<Rightarrow> p | None \<Rightarrow> ''openai''),
                     apiKey = the (LLM_API_KEY s),
                     model = llmModel body\<rparr>
             else None))"

text \<open>
  The rest of the handler, for an admitted device: start the loop and record it under the
  tracking key, with the placeholder \<^verbatim>\<open>"pending"\<close> for the session id.
\<close>

definition goals_launch ::
  "string \<Rightarrow> goal_body \<Rightarrow> device \<Rightarrow> goals_state \<Rightarrow> goal_response \<times> goals_state" where
  "goals_launch user body d s =
     (case resolve_llm user body s of
        None \<Rightarrow>
          (BadRequest ''No LLM provider configured. Set it up in the web dashboard Settings.'', s)
      | Some llmCfg \<Rightarrow>
          (let options = \<lparr>deviceId_o = deviceId d,
                          persistentDeviceId_o = persistentDeviceId d,
                          userId_o = user,
                          goal_o = the (goal_b body),
                          llmConfig = llmCfg,
                          maxSteps_o = maxSteps body\<rparr>;
               sessionPlaceholder = \<lparr>sessionId = ''pending'', goal = the (goal_b body)\<rparr>
           in (Started (the (deviceId_b body)) (the (goal_b body)) ''started'',
               s\<lparr>started := started s @ [options],
                  activeSessions_g := (activeSessions_g s)(trackingKey d := Some sessionPlaceholder)\<rparr>)))"

text \<open>
  The handler run from its start to its end. It gives up the thread between the check and
  the registration only to read the saved configuration, when the body has no API key.
\<close>

definition goals_post :: "string \<Rightarrow> goal_body \<Rightarrow> goals_state \<Rightarrow> goal_response \<times> goals_state" where
  "goals_post user body s =
     (case goals_admit user body s of
        Inl response \<Rightarrow> (response, s)
      | Inr d \<Rightarrow> goals_launch user body d s)"

text \<open>
  What the agent loop settles with: its result, which carries the id of the session the
  loop created, or an error.
\<close>

record loop_result =
  success_r :: bool
  stepsUsed :: nat
  sessionId_r :: string

datatype loop_outcome = Fulfilled loop_result | Rejected string

text \<open>The \<^verbatim>\<open>then\<close> and the \<^verbatim>\<open>catch\<close> of the loop's promise, for a tracking key.\<close>

fun loop_settled :: "string \<Rightarrow> loop_outcome \<Rightarrow> goals_state \<Rightarrow> goals_state" where
  "loop_settled key (Fulfilled result) s = s\<lparr>activeSessions_g := (activeSessions_g s)(key := None)\<rparr>"
| "loop_settled key (Rejected err) s = s\<lparr>activeSessions_g := (activeSessions_g s)(key := None)\<rparr>"

section \<open>Predicates of the statements and inputs of the examples\<close>

text \<open>An element that \<^verbatim>\<open>findMatch\<close> keeps for a lower-cased query.\<close>

definition matches :: "string \<Rightarrow> UIElement \<Rightarrow> bool" where
  "matches q el = (text_el el \<noteq> [] \<and> includes_str (toLowerCase (text_el el)) q)"

definition skill_names :: "string list" where
  "skill_names = [''read_screen'', ''submit_message'', ''copy_visible_text'', ''wait_for_content'',
     ''find_and_tap'', ''compose_email'', ''like_nth_comment'', ''verify_nth_comment_like'']"

text \<open>An enabled, clickable element with a label, at a position.\<close>

definition button :: "string \<Rightarrow> int \<Rightarrow> int \<Rightarrow> UIElement" where
  "button label x y =
     \<lparr>id_el = [], text_el = label, hint = [], center = (x, y), size_el = (100, 100),
      enabled = True, clickable = True, longClickable = False, editable = False,
      checked = False, selected = False, action = ''tap''\<rparr>"

text \<open>
  A device whose first re-scan shows a \<open>Display\<close> entry and whose second shows
  \<open>Settings\<close>; later re-scans fail.
\<close>

definition settings_world :: world where
  "settings_world =
     \<lparr>screens = (\<lambda>k. if k = 0 then [button ''Display'' 540 900]
                      else if k = 1 then [button ''Settings'' 540 1200] else []),
      scans = 0, effects = [], upCoords = (540, 1600, 540, 800),
      lastCommentLikeAttempt = None\<rparr>"

definition find_settings :: ActionDecision where
  "find_settings = \<lparr>action_d = ''find_and_tap'', skill = None, query = Some ''Settings'',
                    text_d = None\<rparr>"

text \<open>An element that is enabled and has the action \<open>tap\<close>, but is not clickable.\<close>

definition send_label :: UIElement where
  "send_label = (button ''Send'' 980 2200)\<lparr>clickable := False\<rparr>"

text \<open>
  The ordinal that a decision asks for, in the words of the specification. The first run
  of digits of the query, or of the text when there is no query, is read without its
  leading zeros: when nothing is left (no digits, or zeros only) the ordinal is 3;
  otherwise the ordinal is the number whose decimal numeral is left. Numbers from
  \<open>2^53\<close> on, which \<^verbatim>\<open>Number.parseInt\<close> rounds, have no ordinal here.
\<close>

definition ordinal_spec :: "ActionDecision \<Rightarrow> nat \<Rightarrow> bool" where
  "ordinal_spec decision n =
     (let raw = (case query decision of
                   Some q \<Rightarrow> q
                 | None \<Rightarrow> (case text_d decision of Some t \<Rightarrow> t | None \<Rightarrow> []));
          ds = dropWhile (\<lambda>c. c = CHR ''0'')
                 (takeWhile is_digit (dropWhile (\<lambda>c. \<not> is_digit c) raw))
      in if ds = [] then n = 3 else ds = show_nat n \<and> n < 2 ^ 53)"

text \<open>
  The placement of a verified row, in the words of the specification: when the last like
  attempt was for the same ordinal and some row lies within 80 pixels of the height tapped
  then, a row nearest to that height; otherwise the row at the ordinal.
\<close>

definition relocated_spec :: "like_attempt option \<Rightarrow> nat \<Rightarrow> UIElement list \<Rightarrow> UIElement \<Rightarrow> bool" where
  "relocated_spec attempt index rows target =
     (case attempt of
        None \<Rightarrow> target = rows ! (index - 1)
      | Some a \<Rightarrow>
          if index_a a = index \<and> (\<exists>row \<in> set rows. \<bar>snd (center row) - y_a a\<bar> \<le> 80) then
            target \<in> set rows
            \<and> (\<forall>row \<in> set rows. \<bar>snd (center target) - y_a a\<bar> \<le> \<bar>snd (center row) - y_a a\<bar>)
          else target = rows ! (index - 1))"

text \<open>
  The signal of a liked row, in the words of the specification: the element is selected
  or checked, or its text, id and hint, joined by spaces and in lower case, contain
  \<open>undo like\<close> or \<open>liked\<close>.
\<close>

definition like_signal :: "UIElement \<Rightarrow> bool" where
  "like_signal target =
     (selected target \<or> checked target
      \<or> includes_str (toLowerCase (text_el target @ '' '' @ id_el target @ '' '' @ hint target))
           ''undo like''
      \<or> includes_str (toLowerCase (text_el target @ '' '' @ id_el target @ '' '' @ hint target))
           ''liked'')"

text \<open>
  A label near a row: an element with a text, at most 70 pixels above or below the row's
  center and from 180 pixels left of it to 40 pixels right of it. The nearby numeric
  label is the first such element, in the order of the screen, whose text holds a number,
  and the count is that number.
\<close>

definition near_label :: "UIElement \<Rightarrow> UIElement \<Rightarrow> bool" where
  "near_label target el =
     (text_el el \<noteq> [] \<and> \<bar>snd (center el) - snd (center target)\<bar> \<le> 70
      \<and> fst (center target) - 180 \<le> fst (center el)
      \<and> fst (center el) \<le> fst (center target) + 40)"

definition nearby_count_spec :: "UIElement list \<Rightarrow> UIElement \<Rightarrow> nat option" where
  "nearby_count_spec elements target =
     (case List.find (\<lambda>el. near_label target el \<and> parseFirstInt (text_el el) \<noteq> None) elements of
        None \<Rightarrow> None
      | Some el \<Rightarrow> parseFirstInt (text_el el))"

text \<open>
  The count differs from the one recorded before: the last attempt was for the same
  ordinal, it recorded a count, a count is read now, and the two are different.
\<close>

definition count_differs :: "like_attempt option \<Rightarrow> nat \<Rightarrow> nat option \<Rightarrow> bool" where
  "count_differs attempt n countNow =
     (case attempt of
        None \<Rightarrow> False
      | Some a \<Rightarrow>
          index_a a = n
          \<and> (case countBefore a of
                None \<Rightarrow> False
              | Some before \<Rightarrow> (case countNow of None \<Rightarrow> False | Some now \<Rightarrow> now \<noteq> before)))"

text \<open>A like button of a comment row at a height, selected or not.\<close>

definition heart :: "int \<Rightarrow> bool \<Rightarrow> UIElement" where
  "heart y sel = (button ''Like'' 1000 y)\<lparr>selected := sel\<rparr>"

definition comment_rows :: "UIElement list" where
  "comment_rows = [heart 1000 False, heart 1300 False, heart 1600 True]"

definition third_comment :: ActionDecision where
  "third_comment = \<lparr>action_d = ''verify_nth_comment_like'', skill = None, query = Some ''3'',
                    text_d = None\<rparr>"

text \<open>The third heart was tapped when it was ten pixels higher.\<close>

definition liked_world :: world where
  "liked_world = settings_world\<lparr>lastCommentLikeAttempt :=
                   Some \<lparr>index_a = 3, y_a = 1590, x_a = 1000, countBefore = None\<rparr>\<rparr>"

text \<open>The same screen after the first comment has scrolled away.\<close>

definition two_comment_rows :: "UIElement list" where
  "two_comment_rows = [heart 1300 False, heart 1600 True]"

text \<open>
  A request for the second comment, on a screen of two comments whose second one shows
  the count 12 beside its heart; the second heart was tapped when it was ten pixels
  higher, and the count recorded then is given.
\<close>

definition second_comment :: ActionDecision where
  "second_comment = \<lparr>action_d = ''verify_nth_comment_like'', skill = None, query = None,
                     text_d = Some ''like the 2nd comment''\<rparr>"

definition counted_rows :: "UIElement list" where
  "counted_rows = [heart 1000 False, heart 1300 False, button ''12'' 900 1310]"

definition counted_world :: "nat \<Rightarrow> world" where
  "counted_world before = settings_world\<lparr>lastCommentLikeAttempt :=
     Some \<lparr>index_a = 2, y_a = 1290, x_a = 1000, countBefore = Some before\<rparr>\<rparr>"

text \<open>
  Accessibility services whose root is always \<^verbatim>\<open>null\<close>, and whose root is
  \<^verbatim>\<open>null\<close> once, then empty, then holds one element.
\<close>

definition no_root :: "(string list, string) a11y" where
  "no_root = \<lparr>roots = (\<lambda>k. None), reads = 0, slept = [], lastScreenTree = []\<rparr>"

definition late_root :: "(string list, string) a11y" where
  "late_root = \<lparr>roots = (\<lambda>k. if k = 0 then None else if k = 1 then Some [] else Some [''OK'']),
                 reads = 0, slept = [], lastScreenTree = []\<rparr>"


text \<open>
  A server with one connected phone, known by its connection id and by its persistent id,
  and an API key in the environment.
\<close>

definition phone :: device where
  "phone = \<lparr>deviceId = ''conn-1'', persistentDeviceId = Some ''dev-A'', userId_dev = ''alice''\<rparr>"

definition one_phone :: goals_state where
  "one_phone =
     \<lparr>getDevice = (\<lambda>i. if i = ''conn-1'' then Some phone else None),
      getDeviceByPersistentId = (\<lambda>i. if i = ''dev-A'' then Some phone else None),
      llmConfigTable = [], LLM_PROVIDER = None, LLM_API_KEY = Some ''sk-env'',
      activeSessions_g = (\<lambda>k. None), started = []\<rparr>"

definition first_goal :: goal_body where
  "first_goal = \<lparr>deviceId_b = Some ''conn-1'', goal_b = Some ''open settings'',
                 llmProvider = None, llmApiKey = None, llmModel = None, maxSteps = None\<rparr>"

definition second_goal :: goal_body where
  "second_goal = \<lparr>deviceId_b = Some ''dev-A'', goal_b = Some ''send a mail'',
                  llmProvider = None, llmApiKey = None, llmModel = None, maxSteps = None\<rparr>"

text \<open>The result the first loop ends with; the loop made the session id.\<close>

definition first_result :: loop_result where
  "first_result = \<lparr>success_r = True, stepsUsed = 4, sessionId_r = ''3f0c9a52''\<rparr>"

text \<open>The events that start a voice session.\<close>

fun is_start :: "event \<Rightarrow> bool" where
  "is_start (VoiceStart ws dev) = True"
| "is_start e = False"

text \<open>
  Invariants of the voice state: a live timer belongs to an allocated session that still
  records it; a registered session is allocated; and the session of a final transcription
  under way is allocated and has no live timer.
\<close>

definition timers_recorded :: "voice_state \<Rightarrow> bool" where
  "timers_recorded s =
     (\<forall>t r ws. timers s t = Some (r, ws) \<longrightarrow>
        r < nextSession s \<and> (\<exists>session. heap s r = Some session \<and> partialTimer session = Some t))"

definition registered_bounded :: "voice_state \<Rightarrow> bool" where
  "registered_bounded s =
     (\<forall>d r. activeSessions s d = Some r \<longrightarrow> r < nextSession s \<and> heap s r \<noteq> None)"

definition finals_stopped :: "voice_state \<Rightarrow> bool" where
  "finals_stopped s =
     (\<forall>c r ws d pcm. calls s c = Some (FinalCall r ws d pcm) \<longrightarrow>
        r < nextSession s \<and> (\<forall>t ws'. timers s t \<noteq> Some (r, ws')))"

definition voice_inv :: "voice_state \<Rightarrow> bool" where
  "voice_inv s = (timers_recorded s \<and> registered_bounded s \<and> finals_stopped s)"

text \<open>A state with no live timer, no transcription under way and no registered session.\<close>

definition quiet :: "voice_state \<Rightarrow> bool" where
  "quiet s = ((\<forall>t. timers s t = None) \<and> (\<forall>c. calls s c = None) \<and> (\<forall>d. activeSessions s d = None))"

text \<open>A chunk of 800 bytes: 25 ms of 16 kHz 16-bit mono audio.\<close>

definition chunk800 :: buffer where
  "chunk800 = replicate 800 (CHR 0x00)"

text \<open>
  The states of a server that has seen one voice session, for a device: the session
  object at reference 0, its timer at handle 0 (live with its closure, or cleared), the
  transcriptions under way, what was sent, the next call id, and the device's entry in
  the map.
\<close>

definition one_session ::
  "string \<Rightarrow> VoiceSession \<Rightarrow> (nat \<times> nat) option \<Rightarrow> (nat \<Rightarrow> transcription option)
     \<Rightarrow> (nat \<times> message) list \<Rightarrow> nat \<Rightarrow> nat option \<Rightarrow> voice_state" where
  "one_session d session live cl snt nc reg =
     \<lparr>heap = (\<lambda>r. None)(0 := Some session),
      activeSessions = (\<lambda>k. None)(d := reg),
      timers = (\<lambda>t. None)(0 := live),
      calls = cl, sent = snt,
      nextSession = Suc 0, nextTimer = Suc 0, nextCall = nc\<rparr>"

definition new_session :: VoiceSession where
  "new_session = \<lparr>chunks = [], totalBytes = 0, partialTimer = Some 0, lastPartialOffset = 0\<rparr>"

definition five_chunks :: "buffer list" where
  "five_chunks = [chunk800, chunk800, chunk800, chunk800, chunk800]"

definition long_chunk :: buffer where
  "long_chunk = replicate 4000 (CHR 0x00)"

text \<open>
  A recording is sent, and while its final transcription is under way the device starts a
  second recording and sends a chunk of it; then the transcription returns.
\<close>

definition overlapping_send :: "event list" where
  "overlapping_send =
     [VoiceStart 7 ''phone'', VoiceChunk ''phone'' long_chunk, VoiceSend 7 ''phone'',
      VoiceStart 7 ''phone'', VoiceChunk ''phone'' long_chunk, Reply 0 (Some ''hello'')]"

chapter \<open>Properties\<close>

section \<open>Sorting\<close>


lemma insert_by_set: "set (insert_by cmp x xs) = insert x (set xs)"
  by (induction xs) auto

lemma js_sort_set: "set (js_sort cmp xs) = set xs"
  unfolding js_sort_def by (induction xs) (auto simp: insert_by_set)

lemma insert_by_sorted:
  assumes "sorted_wrt (\<lambda>a b. k a \<le> k b) xs"
  shows "sorted_wrt (\<lambda>a b. (k a :: int) \<le> k b) (insert_by (\<lambda>a b. k a - k b) x xs)"
  using assms by (induction xs) (auto simp: insert_by_set)

lemma js_sort_sorted: "sorted_wrt (\<lambda>a b. (k a :: int) \<le> k b) (js_sort (\<lambda>a b. k a - k b) xs)"
  unfolding js_sort_def by (induction xs) (auto simp: insert_by_sorted)

lemma js_sort_head_least:
  assumes "js_sort (\<lambda>a b. k a - k b) xs = x # rest"
  shows "x \<in> set xs \<and> (\<forall>y \<in> set xs. (k x :: int) \<le> k y)"
proof -
  have s: "set (x # rest) = set xs" using assms js_sort_set by metis
  have "sorted_wrt (\<lambda>a b. k a \<le> k b) (x # rest)" using js_sort_sorted[of k xs] assms by simp
  then have "\<forall>y \<in> set rest. k x \<le> k y" by simp
  with s show ?thesis by auto
qed

lemma js_sort_head_greatest:
  assumes "js_sort (\<lambda>a b. k b - k a) xs = x # rest"
  shows "x \<in> set xs \<and> (\<forall>y \<in> set xs. (k y :: int) \<le> k x)"
proof -
  have "js_sort (\<lambda>a b. (- k a) - (- k b)) xs = x # rest" using assms by simp
  from js_sort_head_least[of "\<lambda>a. - k a", OF this] show ?thesis by simp
qed

lemma js_sort_Nil: "js_sort cmp xs = [] \<longleftrightarrow> xs = []"
  using js_sort_set[of cmp xs] by (metis set_empty)


section \<open>find\_and\_tap on the third screen\<close>

lemma findMatch_None:
  assumes "\<forall>el \<in> set els. \<not> includes_str (toLowerCase (text_el el)) q"
  shows "findMatch els q = None"
proof -
  have "filter (\<lambda>el. text_el el \<noteq> [] \<and> includes_str (toLowerCase (text_el el)) q) els = []"
    using assms by (simp add: filter_empty_conv)
  then show ?thesis by (simp add: findMatch_def)
qed

lemma findMatch_Some:
  assumes "\<exists>el \<in> set els. matches q el"
  shows "\<exists>b. findMatch els q = Some b \<and> b \<in> set els \<and> matches q b
            \<and> (\<forall>el \<in> set els. matches q el \<longrightarrow> match_score el q \<le> match_score b q)"
proof -
  define ms where "ms = filter (\<lambda>el. text_el el \<noteq> [] \<and> includes_str (toLowerCase (text_el el)) q) els"
  define scored where "scored = map (\<lambda>el. (el, match_score el q)) ms"
  have ne: "ms \<noteq> []" using assms by (auto simp: ms_def matches_def filter_empty_conv)
  then have "js_sort (\<lambda>a b. snd b - snd a) scored \<noteq> []"
    by (simp add: js_sort_Nil scored_def)
  then obtain p rest where p: "js_sort (\<lambda>a b. snd b - snd a) scored = p # rest"
    by (cases "js_sort (\<lambda>a b. snd b - snd a) scored") auto
  from js_sort_head_greatest[of snd scored p rest, OF p]
  have pin: "p \<in> set scored" and pmax: "\<forall>y \<in> set scored. snd y \<le> snd p" by auto
  have fm: "findMatch els q = Some (fst p)"
    using ne p by (simp add: findMatch_def ms_def[symmetric] scored_def[symmetric] Let_def)
  from pin have f: "fst p \<in> set ms" and sp: "snd p = match_score (fst p) q"
    by (auto simp: scored_def)
  have "\<forall>el \<in> set els. matches q el \<longrightarrow> match_score el q \<le> match_score (fst p) q"
  proof (intro ballI impI)
    fix el assume "el \<in> set els" "matches q el"
    then have "(el, match_score el q) \<in> set scored"
      by (auto simp: scored_def ms_def matches_def)
    with pmax sp show "match_score el q \<le> match_score (fst p) q" by fastforce
  qed
  with fm f show ?thesis by (auto simp: ms_def matches_def)
qed

lemma includes_nonempty: "includes_str (toLowerCase t) (c # cs) \<Longrightarrow> t \<noteq> []"
  by (cases t) (auto simp: toLowerCase_def)

lemma lower_Settings: "toLowerCase ''Settings'' = ''settings''"
  by code_simp

lemma scroll_search_second:
  assumes "findMatch (screens w (scans w)) q = None"
    and "findMatch (screens w (Suc (scans w))) q = Some b"
  shows "scroll_search (Suc (Suc n)) q w =
           (Some b, w\<lparr>scans := Suc (Suc (scans w)),
                      effects := effects w @ [Swipe (upCoords w), Sleep 1500, Rescan,
                                             Swipe (upCoords w), Sleep 1500, Rescan]\<rparr>)"
  using assms
  by (simp add: runAdbCommand_def sleepSync_def rescanScreen_def Let_def)

text \<open>
  C3. \<^verbatim>\<open>find_and_tap\<close> with the query \<open>Settings\<close>, when no element text of the
  screen it is given nor of the first re-scan contains \<open>settings\<close> in any letter case
  and some element text of the second re-scan does: the skill succeeds, it taps the centre
  of the element that \<^verbatim>\<open>findMatch\<close> picks from that third observation, and before
  the tap it issues exactly two swipes, each followed by its pause and its re-scan.
\<close>

theorem findAndTap_third_screen:
  assumes q: "query decision = Some ''Settings''"
    and first: "\<forall>el \<in> set elements. \<not> includes_str (toLowerCase (text_el el)) ''settings''"
    and second: "\<forall>el \<in> set (screens w (scans w)). \<not> includes_str (toLowerCase (text_el el)) ''settings''"
    and third: "\<exists>el \<in> set (screens w (Suc (scans w))). includes_str (toLowerCase (text_el el)) ''settings''"
  shows "\<exists>b \<in> set (screens w (Suc (scans w))).
           includes_str (toLowerCase (text_el b)) ''settings''
           \<and> findMatch (screens w (Suc (scans w))) ''settings'' = Some b
           \<and> findAndTap decision elements w =
               (\<lparr>success = True,
                 message = ''Found and tapped '' @ dquote @ text_el b @ dquote @ '' at (''
                   @ String_of (fst (center b)) @ '', '' @ String_of (snd (center b)) @ '')'',
                 data = Some (Text (text_el b))\<rparr>,
                w\<lparr>scans := Suc (Suc (scans w)),
                  effects := effects w @ [Swipe (upCoords w), Sleep 1500, Rescan,
                                         Swipe (upCoords w), Sleep 1500, Rescan,
                                         Tap (fst (center b)) (snd (center b))]\<rparr>)"
proof -
  have n1: "findMatch elements ''settings'' = None" using first by (rule findMatch_None)
  have n2: "findMatch (screens w (scans w)) ''settings'' = None" using second by (rule findMatch_None)
  have "\<exists>el \<in> set (screens w (Suc (scans w))). matches ''settings'' el"
    using third by (auto simp: matches_def dest: includes_nonempty)
  from findMatch_Some[OF this] obtain b where
    b: "findMatch (screens w (Suc (scans w))) ''settings'' = Some b"
      "b \<in> set (screens w (Suc (scans w)))" "matches ''settings'' b" by blast
  have ten: "(10::nat) = Suc (Suc 8)" by simp
  have ss: "scroll_search 10 ''settings'' w =
           (Some b, w\<lparr>scans := Suc (Suc (scans w)),
                      effects := effects w @ [Swipe (upCoords w), Sleep 1500, Rescan,
                                             Swipe (upCoords w), Sleep 1500, Rescan]\<rparr>)"
    unfolding ten by (rule scroll_search_second[OF n2 b(1)])
  have "findAndTap decision elements w =
               (\<lparr>success = True,
                 message = ''Found and tapped '' @ dquote @ text_el b @ dquote @ '' at (''
                   @ String_of (fst (center b)) @ '', '' @ String_of (snd (center b)) @ '')'',
                 data = Some (Text (text_el b))\<rparr>,
                w\<lparr>scans := Suc (Suc (scans w)),
                  effects := effects w @ [Swipe (upCoords w), Sleep 1500, Rescan,
                                         Swipe (upCoords w), Sleep 1500, Rescan,
                                         Tap (fst (center b)) (snd (center b))]\<rparr>)"
    unfolding findAndTap_def
    by (simp add: q lower_Settings n1 ss runAdbCommand_def Let_def split: prod.splits)
  with b show ?thesis by (auto simp: matches_def)
qed


theorem findAndTap_third_screen_witness:
  "success (fst (findAndTap find_settings [button ''Wi-Fi'' 540 400] settings_world))
   \<and> effects (snd (findAndTap find_settings [button ''Wi-Fi'' 540 400] settings_world)) =
       [Swipe (540, 1600, 540, 800), Sleep 1500, Rescan,
        Swipe (540, 1600, 540, 800), Sleep 1500, Rescan, Tap 540 1200]"
proof -
  have q: "query find_settings = Some ''Settings''" by (simp add: find_settings_def)
  have h1: "\<forall>el \<in> set [button ''Wi-Fi'' 540 400]. \<not> includes_str (toLowerCase (text_el el)) ''settings''"
    by code_simp
  have h2: "\<forall>el \<in> set (screens settings_world (scans settings_world)).
              \<not> includes_str (toLowerCase (text_el el)) ''settings''"
    by code_simp
  have h3: "\<exists>el \<in> set (screens settings_world (Suc (scans settings_world))).
              includes_str (toLowerCase (text_el el)) ''settings''"
    by code_simp
  from findAndTap_third_screen[OF q h1 h2 h3] obtain b where
    b: "findMatch (screens settings_world (Suc (scans settings_world))) ''settings'' = Some b"
    and r: "findAndTap find_settings [button ''Wi-Fi'' 540 400] settings_world =
               (\<lparr>success = True,
                 message = ''Found and tapped '' @ dquote @ text_el b @ dquote @ '' at (''
                   @ String_of (fst (center b)) @ '', '' @ String_of (snd (center b)) @ '')'',
                 data = Some (Text (text_el b))\<rparr>,
                settings_world\<lparr>scans := Suc (Suc (scans settings_world)),
                  effects := effects settings_world @ [Swipe (upCoords settings_world), Sleep 1500, Rescan,
                                         Swipe (upCoords settings_world), Sleep 1500, Rescan,
                                         Tap (fst (center b)) (snd (center b))]\<rparr>)"
    by blast
  have "findMatch (screens settings_world (Suc (scans settings_world))) ''settings''
          = Some (button ''Settings'' 540 1200)"
    by code_simp
  with b have "b = button ''Settings'' 540 1200" by simp
  with r show ?thesis by (simp add: settings_world_def button_def)
qed

section \<open>The dispatcher and unknown skills\<close>

text \<open>
  C8. For every decision whose skill (or, without one, whose action) is none of the eight
  names the dispatcher knows, \<^verbatim>\<open>executeSkill\<close> returns a result with
  \<open>success = False\<close> and the message \<open>Unknown skill:\<close> followed by that name; it
  sends nothing to the device and changes nothing (the branch is a plain \<^verbatim>\<open>return\<close>).
\<close>

theorem executeSkill_unknown:
  assumes "(case skill decision of Some s \<Rightarrow> s | None \<Rightarrow> action_d decision) \<notin> set skill_names"
  shows "executeSkill decision elements w =
           (\<lparr>success = False,
             message = ''Unknown skill: ''
               @ (case skill decision of Some s \<Rightarrow> s | None \<Rightarrow> action_d decision),
             data = None\<rparr>, w)"
  using assms unfolding executeSkill_def skill_names_def Let_def
  by (simp only: list.set insert_iff empty_iff de_Morgan_disj if_False simp_thms)

theorem executeSkill_unknown_witness:
  "executeSkill \<lparr>action_d = ''tap'', skill = Some ''double_tap'', query = None, text_d = None\<rparr>
     [] settings_world =
   (\<lparr>success = False, message = ''Unknown skill: double_tap'', data = None\<rparr>, settings_world)"
proof -
  have "(case skill \<lparr>action_d = ''tap'', skill = Some ''double_tap'', query = None, text_d = None\<rparr> of
           Some s \<Rightarrow> s
         | None \<Rightarrow> action_d \<lparr>action_d = ''tap'', skill = Some ''double_tap'', query = None, text_d = None\<rparr>)
        \<notin> set skill_names"
    by (simp add: skill_names_def)
  from executeSkill_unknown[OF this, of "[]" settings_world] show ?thesis by simp
qed

section \<open>submit\_message without a button\<close>

text \<open>
  C5 as stated fails: a list whose only element is enabled and has the action \<open>tap\<close>
  but is not clickable has no enabled and clickable element, and \<^verbatim>\<open>submitMessage\<close>
  taps it and reports success, because the first filter also admits
  \<^verbatim>\<open>el.action === "tap"\<close>.
\<close>

theorem submitMessage_tap_action_counterexample:
  "length (filter (\<lambda>el. enabled el \<and> clickable el) [send_label]) = 0
   \<and> success (fst (submitMessage [send_label] settings_world))"
  by code_simp

text \<open>
  C5, amended. For every element list with no element that is enabled and clickable, and
  no element that is enabled, has the action \<open>tap\<close> and matches the send pattern in its
  text or id, \<^verbatim>\<open>submitMessage\<close> returns \<open>success = False\<close> with the message
  \<open>Could not find a Send/Submit button on screen\<close>, and does nothing to the device.
\<close>

theorem submitMessage_no_candidate:
  assumes "length (filter (\<lambda>el. enabled el \<and> clickable el) elements) = 0"
    and "length (filter (\<lambda>el. enabled el \<and> action el = ''tap''
            \<and> (SEND_BUTTON_PATTERN (text_el el) \<or> SEND_BUTTON_PATTERN (id_el el))) elements) = 0"
  shows "submitMessage elements w =
           (\<lparr>success = False, message = ''Could not find a Send/Submit button on screen'',
             data = None\<rparr>, w)"
proof -
  have a: "filter (\<lambda>el. enabled el \<and> clickable el) elements = []" using assms(1) by simp
  have b: "filter (\<lambda>el. enabled el \<and> action el = ''tap''
            \<and> (SEND_BUTTON_PATTERN (text_el el) \<or> SEND_BUTTON_PATTERN (id_el el))) elements = []"
    using assms(2) by simp
  have "filter (\<lambda>el. enabled el \<and> (clickable el \<or> action el = ''tap'')
                          \<and> (SEND_BUTTON_PATTERN (text_el el) \<or> SEND_BUTTON_PATTERN (id_el el)))
                        elements = []"
    using a b unfolding filter_empty_conv by blast
  then have "submit_candidates elements = []"
    by (simp add: submit_candidates_def a js_sort_def)
  then show ?thesis by (simp add: submitMessage_def)
qed

theorem submitMessage_no_candidate_witness:
  "submitMessage [(button ''Send'' 980 2200)\<lparr>enabled := False\<rparr>] settings_world =
     (\<lparr>success = False, message = ''Could not find a Send/Submit button on screen'',
       data = None\<rparr>, settings_world)"
proof -
  have a: "length (filter (\<lambda>el. enabled el \<and> clickable el)
             [(button ''Send'' 980 2200)\<lparr>enabled := False\<rparr>]) = 0"
    by (simp add: button_def)
  have b: "length (filter (\<lambda>el. enabled el \<and> action el = ''tap''
            \<and> (SEND_BUTTON_PATTERN (text_el el) \<or> SEND_BUTTON_PATTERN (id_el el)))
             [(button ''Send'' 980 2200)\<lparr>enabled := False\<rparr>]) = 0"
    by (simp add: button_def)
  from submitMessage_no_candidate[OF a b] show ?thesis .
qed


section \<open>verify\_nth\_comment\_like\<close>

lemma parseNthCommentIndex_pos: "0 < parseNthCommentIndex decision"
  by (simp add: parseNthCommentIndex_def Let_def)

lemma verify_target_relocated:
  assumes "0 < index" and "index \<le> length rows"
  shows "verify_target attempt index rows \<in> set rows
         \<and> relocated_spec attempt index rows (verify_target attempt index rows)"
proof -
  have nth: "rows ! (index - 1) \<in> set rows" using assms by simp
  have ne: "rows \<noteq> []" using assms by auto
  show ?thesis
  proof (cases attempt)
    case None
    then show ?thesis using nth by (simp add: verify_target_def relocated_spec_def)
  next
    case (Some a)
    show ?thesis
    proof (cases "index_a a = index")
      case False
      then show ?thesis using Some nth by (simp add: verify_target_def relocated_spec_def)
    next
      case True
      define pairs where "pairs = map (\<lambda>row. (row, \<bar>snd (center row) - y_a a\<bar>)) rows"
      have "js_sort (\<lambda>p q. snd p - snd q) pairs \<noteq> []"
        using ne by (simp add: js_sort_Nil pairs_def)
      then obtain nearest rest where n: "js_sort (\<lambda>p q. snd p - snd q) pairs = nearest # rest"
        by (cases "js_sort (\<lambda>p q. snd p - snd q) pairs") auto
      from js_sort_head_least[of snd pairs nearest rest, OF n]
      have nin: "nearest \<in> set pairs" and least: "\<forall>p \<in> set pairs. snd nearest \<le> snd p" by auto
      from nin have frow: "fst nearest \<in> set rows"
        and dy: "snd nearest = \<bar>snd (center (fst nearest)) - y_a a\<bar>"
        by (auto simp: pairs_def)
      have all: "\<forall>row \<in> set rows. snd nearest \<le> \<bar>snd (center row) - y_a a\<bar>"
      proof
        fix row assume "row \<in> set rows"
        then have "(row, \<bar>snd (center row) - y_a a\<bar>) \<in> set pairs" by (auto simp: pairs_def)
        with least show "snd nearest \<le> \<bar>snd (center row) - y_a a\<bar>" by fastforce
      qed
      have vt: "verify_target attempt index rows =
                  (if snd nearest \<le> 80 then fst nearest else rows ! (index - 1))"
        using Some True n by (simp add: verify_target_def pairs_def[symmetric])
      show ?thesis
      proof (cases "snd nearest \<le> 80")
        case close: True
        then have "\<exists>row \<in> set rows. \<bar>snd (center row) - y_a a\<bar> \<le> 80" using frow dy by auto
        then show ?thesis using vt close Some True frow all dy
          by (simp add: relocated_spec_def)
      next
        case far: False
        then have "\<not> (\<exists>row \<in> set rows. \<bar>snd (center row) - y_a a\<bar> \<le> 80)"
          using all by fastforce
        then show ?thesis using vt far Some True nth by (simp add: relocated_spec_def)
      qed
    qed
  qed
qed

text \<open>The ordinal: the digits of a decimal numeral give back its number.\<close>

lemma digits_value_snoc:
  "digits_value (ds @ [c]) = 10 * digits_value ds + (of_char c - 48)"
  by (simp add: digits_value_def)

lemma show_nat_digits: "list_all is_digit (show_nat n) \<and> show_nat n \<noteq> []"
proof (induction n rule: show_nat.induct)
  case (1 n)
  show ?case
  proof (cases "n < 10")
    case True
    then show ?thesis by (subst (1 2) show_nat.simps) (simp add: is_digit_def)
  next
    case False
    have "n mod 10 < 10" by simp
    then have "is_digit (char_of (48 + n mod 10))" by (simp add: is_digit_def)
    then show ?thesis using False 1 by (subst (1 2) show_nat.simps) simp
  qed
qed

lemma digits_value_show_nat: "digits_value (show_nat n) = n"
proof (induction n rule: show_nat.induct)
  case (1 n)
  show ?case
  proof (cases "n < 10")
    case True
    then show ?thesis by (subst show_nat.simps) (simp add: digits_value_def)
  next
    case False
    then show ?thesis using 1
      by (subst show_nat.simps) (simp add: digits_value_snoc)
  qed
qed

lemma digits_value_zeros:
  "digits_value (dropWhile (\<lambda>c. c = CHR ''0'') m) = digits_value m"
proof (induction m)
  case Nil
  show ?case by simp
next
  case (Cons c cs)
  have "digits_value (CHR ''0'' # cs) = digits_value cs" by (simp add: digits_value_def)
  then show ?case using Cons by auto
qed

lemma ordinal_spec_parse:
  assumes "ordinal_spec decision n"
  shows "parseNthCommentIndex decision = n"
proof -
  define m where "m = takeWhile is_digit (dropWhile (\<lambda>c. \<not> is_digit c)
                        (case query decision of
                           Some q \<Rightarrow> q
                         | None \<Rightarrow> (case text_d decision of Some t \<Rightarrow> t | None \<Rightarrow> [])))"
  define ds where "ds = dropWhile (\<lambda>c. c = CHR ''0'') m"
  have p: "parseNthCommentIndex decision =
             (if m = [] then 3
              else if is_finite (digits_value m) \<and> digits_value m > 0 then digits_value m else 3)"
    by (simp add: parseNthCommentIndex_def m_def Let_def)
  have dv: "digits_value m = digits_value ds" by (simp add: ds_def digits_value_zeros)
  have os: "if ds = [] then n = 3 else ds = show_nat n \<and> n < 2 ^ 53"
    using assms unfolding ordinal_spec_def Let_def ds_def m_def .
  show ?thesis
  proof (cases "ds = []")
    case True
    then have "n = 3" using os by simp
    moreover have "digits_value m = 0" using dv True by (simp add: digits_value_def)
    ultimately show ?thesis by (simp add: p)
  next
    case False
    then have eq: "ds = show_nat n" and b: "n < 2 ^ 53"
      using os by simp_all
    have mne: "m \<noteq> []" using False by (auto simp: ds_def)
    have v: "digits_value m = n" using dv eq by (simp add: digits_value_show_nat)
    have "hd ds \<noteq> CHR ''0''"
      using False hd_dropWhile[of "\<lambda>c. c = CHR ''0''" m] by (simp add: ds_def)
    moreover have "show_nat 0 = ''0''" by code_simp
    ultimately have "n \<noteq> 0" using eq by (cases "n = 0") simp_all
    moreover have "is_finite n" using b by (simp add: is_finite_def)
    ultimately show ?thesis using mne v by (simp add: p)
  qed
qed

text \<open>The count: the loop of \<^verbatim>\<open>findNearbyCommentCount\<close> finds the first numeric label.\<close>

lemma first_some_find:
  "first_some (map f (filter P xs)) =
     (case List.find (\<lambda>x. P x \<and> f x \<noteq> None) xs of None \<Rightarrow> None | Some x \<Rightarrow> f x)"
proof (induction xs)
  case Nil
  show ?case by simp
next
  case (Cons x xs)
  show ?case
  proof (cases "P x")
    case True
    then show ?thesis using Cons by (cases "f x") simp_all
  next
    case False
    then show ?thesis using Cons by simp
  qed
qed

lemma findNearbyCommentCount_spec:
  "findNearbyCommentCount elements target = nearby_count_spec elements target"
proof -
  have "(\<lambda>el. if text_el el = [] then False
              else if \<bar>snd (center el) - snd (center target)\<bar> > 70 then False
              else if fst (center el) < fst (center target) - 180 then False
              else if fst (center el) > fst (center target) + 40 then False
              else True) = near_label target"
    by (auto simp: near_label_def fun_eq_iff)
  then show ?thesis
    by (simp add: findNearbyCommentCount_def nearby_count_spec_def first_some_find)
qed

lemma digit_word_char: "is_digit c \<Longrightarrow> word_char c"
  by (simp add: is_digit_def word_char_def Let_def)

lemma digit_not_comma: "is_digit c \<Longrightarrow> c \<noteq> CHR 0x2C"
  by (auto simp: is_digit_def)

lemma match_int_at_digits:
  assumes "list_all is_digit s" and "s \<noteq> []"
  shows "match_int_at s = Some s"
proof -
  obtain c cs where s: "s = c # cs" using assms(2) by (cases s) auto
  have c: "is_digit c" and cs: "\<forall>d \<in> set cs. is_digit d"
    using assms(1) by (simp_all add: s list_all_iff)
  have tw: "takeWhile (\<lambda>d. is_digit d \<or> d = CHR 0x2C) cs = cs"
    using cs by (simp add: takeWhile_eq_all_conv)
  have "is_digit ((c # cs) ! length cs)"
    using c cs by (cases cs rule: rev_cases) (simp_all add: nth_append nth_Cons')
  then have b: "boundary_at (c # cs) (Suc (length cs))"
    by (simp add: boundary_at_def digit_word_char)
  have r: "rev [1..<Suc (Suc (length cs))] = Suc (length cs) # rev [1..<Suc (length cs)]"
    by simp
  show ?thesis
    unfolding s match_int_at_def
    by (simp only: list.case c tw Let_def r filter.simps b if_True not_True_eq_False if_False
          take_all order_refl length_Cons)
qed

text \<open>A label whose text is a decimal numeral reads as its number.\<close>

lemma parseFirstInt_decimal: "parseFirstInt (show_nat n) = Some n"
proof -
  have d: "list_all is_digit (show_nat n)" and ne: "show_nat n \<noteq> []"
    using show_nat_digits[of n] by simp_all
  obtain c cs where s: "show_nat n = c # cs" using ne by (cases "show_nat n") auto
  have m: "first_int_from False (show_nat n) = Some (show_nat n)"
    using match_int_at_digits[OF d ne] by (simp add: s)
  have "filter (\<lambda>c. c \<noteq> CHR 0x2C) (show_nat n) = show_nat n"
    using d by (simp add: list_all_iff digit_not_comma)
  then show ?thesis by (simp add: parseFirstInt_def m digits_value_show_nat)
qed

text \<open>The two signals.\<close>

lemma selectedLike_spec: "selectedLike target = like_signal target"
  by (simp add: selectedLike_def like_signal_def hay_def)

lemma countChanged_spec: "countChanged attempt n countNow = count_differs attempt n countNow"
  by (auto simp: countChanged_def count_differs_def split: option.splits)

text \<open>The screens of the examples.\<close>

lemma third_comment_index: "parseNthCommentIndex third_comment = 3"
  by (simp add: parseNthCommentIndex_def third_comment_def is_digit_def digits_value_def
        is_finite_def)

lemma comment_rows_rows:
  "collectCommentLikeRows comment_rows = [heart 1000 False, heart 1300 False, heart 1600 True]"
  by code_simp

lemma two_comment_rows_rows:
  "collectCommentLikeRows two_comment_rows = [heart 1300 False, heart 1600 True]"
  by code_simp

lemma counted_rows_rows:
  "collectCommentLikeRows counted_rows = [heart 1000 False, heart 1300 False]"
  by code_simp

lemma second_comment_ordinal: "ordinal_spec second_comment 2"
proof -
  have "show_nat 2 = ''2''" by code_simp
  then show ?thesis
    by (simp add: ordinal_spec_def second_comment_def is_digit_def)
qed

lemma third_comment_ordinal: "ordinal_spec third_comment 3"
proof -
  have "show_nat 3 = ''3''" by code_simp
  then show ?thesis
    by (simp add: ordinal_spec_def third_comment_def is_digit_def)
qed

lemma counted_target:
  assumes "relocated_spec (lastCommentLikeAttempt (counted_world before)) 2
             [heart 1000 False, heart 1300 False] target"
  shows "target = heart 1300 False"
  using assms by (auto simp: relocated_spec_def counted_world_def heart_def button_def)

lemma liked_target:
  assumes "relocated_spec (lastCommentLikeAttempt liked_world) 3
             [heart 1000 False, heart 1300 False, heart 1600 True] target"
  shows "target = heart 1600 True"
  using assms by (auto simp: relocated_spec_def liked_world_def heart_def button_def)

lemma counted_signal: "\<not> like_signal (heart 1300 False)"
  by code_simp

lemma liked_signal: "like_signal (heart 1600 True)"
  by (simp add: like_signal_def heart_def)

lemma counted_count: "nearby_count_spec counted_rows (heart 1300 False) = Some 12"
  by code_simp

text \<open>
  C7 as stated fails. The last like attempt was for the third comment, tapped at the
  height 1590. Two comment rows are visible, and the row nearest to that height, ten
  pixels from it, is a selected heart: the placement rule of the claim gives that row,
  and it carries the signal. \<^verbatim>\<open>verifyNthCommentLike\<close> does not look at it: with
  fewer visible rows than the ordinal it returns at its first test, with
  \<open>success = False\<close> and a message that is not the one of a like not confirmed yet.
\<close>

theorem verifyNthCommentLike_fewer_rows_counterexample:
  "lastCommentLikeAttempt liked_world =
     Some \<lparr>index_a = 3, y_a = 1590, x_a = 1000, countBefore = None\<rparr>
   \<and> parseNthCommentIndex third_comment = 3
   \<and> collectCommentLikeRows two_comment_rows = [heart 1300 False, heart 1600 True]
   \<and> relocated_spec (lastCommentLikeAttempt liked_world) 3
        (collectCommentLikeRows two_comment_rows) (heart 1600 True)
   \<and> \<bar>snd (center (heart 1600 True)) - 1590\<bar> \<le> 80
   \<and> selected (heart 1600 True)
   \<and> fst (verifyNthCommentLike third_comment two_comment_rows liked_world) =
       \<lparr>success = False,
        message = ''Could not verify: only found 2 visible comment-like buttons; need 3'',
        data = None\<rparr>"
proof -
  have s2: "show_nat 2 = ''2''" and s3: "show_nat 3 = ''3''" by code_simp+
  show ?thesis
    by (simp add: two_comment_rows_rows third_comment_index verifyNthCommentLike_def
          liked_world_def relocated_spec_def heart_def button_def String_of_def s2 s3 Let_def)
qed

text \<open>
  C7, amended. Let \<open>n\<close> be the ordinal that the decision asks for
  (\<^const>\<open>ordinal_spec\<close>). \<^verbatim>\<open>verifyNthCommentLike\<close> changes nothing and always
  returns a result. When fewer than \<open>n\<close> comment rows are visible it inspects no row and
  returns \<open>success = False\<close> with the message \<open>Could not verify: only found k visible
  comment-like buttons; need n\<close>. When at least \<open>n\<close> rows are visible it inspects a row
  placed as the specification says (\<^const>\<open>relocated_spec\<close>: the row nearest to the
  height tapped before when the last attempt was for the same ordinal and that row lies
  within 80 pixels, else the row at the ordinal), and it succeeds exactly when that row
  carries the signal of a liked row (\<^const>\<open>like_signal\<close>) or the count on the nearby
  numeric label (\<^const>\<open>nearby_count_spec\<close>) differs from the count recorded before
  for that ordinal (\<^const>\<open>count_differs\<close>). On success the message names the signal
  that was found, the selection first; otherwise the message says that the like is not
  confirmed yet.
\<close>

theorem verifyNthCommentLike_visible_ordinal:
  assumes "ordinal_spec decision n"
  shows "snd (verifyNthCommentLike decision elements w) = w
   \<and> (length (collectCommentLikeRows elements) < n \<longrightarrow>
        fst (verifyNthCommentLike decision elements w) =
          \<lparr>success = False,
           message = ''Could not verify: only found ''
             @ String_of (int (length (collectCommentLikeRows elements)))
             @ '' visible comment-like buttons; need '' @ String_of (int n),
           data = None\<rparr>)
   \<and> (n \<le> length (collectCommentLikeRows elements) \<longrightarrow>
        (\<exists>target \<in> set (collectCommentLikeRows elements).
           relocated_spec (lastCommentLikeAttempt w) n (collectCommentLikeRows elements) target
           \<and> (success (fst (verifyNthCommentLike decision elements w)) \<longleftrightarrow>
                like_signal target
                \<or> count_differs (lastCommentLikeAttempt w) n (nearby_count_spec elements target))
           \<and> (success (fst (verifyNthCommentLike decision elements w)) \<longrightarrow>
                message (fst (verifyNthCommentLike decision elements w)) =
                  ''Comment #'' @ String_of (int n) @ '' like verified (''
                    @ (if like_signal target then ''selected'' else ''count changed'') @ '')'')
           \<and> (\<not> success (fst (verifyNthCommentLike decision elements w)) \<longrightarrow>
                message (fst (verifyNthCommentLike decision elements w)) =
                  ''Comment #'' @ String_of (int n) @ '' like not confirmed yet'')))"
proof -
  have idx: "parseNthCommentIndex decision = n" by (rule ordinal_spec_parse[OF assms])
  have pos: "0 < n" using parseNthCommentIndex_pos[of decision] idx by simp
  show ?thesis
  proof (cases "length (collectCommentLikeRows elements) < n")
    case True
    then show ?thesis by (simp add: verifyNthCommentLike_def idx Let_def)
  next
    case False
    then have le: "n \<le> length (collectCommentLikeRows elements)" by simp
    from verify_target_relocated[OF pos le, of "lastCommentLikeAttempt w"]
    have t: "verify_target (lastCommentLikeAttempt w) n (collectCommentLikeRows elements)
               \<in> set (collectCommentLikeRows elements)"
      and r: "relocated_spec (lastCommentLikeAttempt w) n (collectCommentLikeRows elements)
               (verify_target (lastCommentLikeAttempt w) n (collectCommentLikeRows elements))"
      by auto
    have w: "snd (verifyNthCommentLike decision elements w) = w"
      using False by (simp add: verifyNthCommentLike_def idx Let_def)
    show ?thesis
      unfolding w
      apply (simp only: False le simp_thms)
      apply (rule bexI[OF _ t])
      using r False
      apply (simp add: verifyNthCommentLike_def idx Let_def findNearbyCommentCount_spec
               selectedLike_spec countChanged_spec)
      done
  qed
qed

theorem verifyNthCommentLike_visible_ordinal_witness:
  "ordinal_spec second_comment 2
   \<and> 2 \<le> length (collectCommentLikeRows counted_rows)
   \<and> relocated_spec (lastCommentLikeAttempt (counted_world 11)) 2
        (collectCommentLikeRows counted_rows) (heart 1300 False)
   \<and> \<not> like_signal (heart 1300 False)
   \<and> nearby_count_spec counted_rows (heart 1300 False) = Some 12
   \<and> success (fst (verifyNthCommentLike second_comment counted_rows (counted_world 11)))
   \<and> message (fst (verifyNthCommentLike second_comment counted_rows (counted_world 11))) =
       ''Comment #2 like verified (count changed)''
   \<and> \<not> success (fst (verifyNthCommentLike second_comment counted_rows (counted_world 12)))
   \<and> message (fst (verifyNthCommentLike second_comment counted_rows (counted_world 12))) =
       ''Comment #2 like not confirmed yet''
   \<and> snd (verifyNthCommentLike second_comment counted_rows (counted_world 11)) = counted_world 11
   \<and> ordinal_spec third_comment 3
   \<and> 3 \<le> length (collectCommentLikeRows comment_rows)
   \<and> success (fst (verifyNthCommentLike third_comment comment_rows liked_world))
   \<and> message (fst (verifyNthCommentLike third_comment comment_rows liked_world)) =
       ''Comment #3 like verified (selected)''"
proof -
  have le: "2 \<le> length (collectCommentLikeRows counted_rows)" by (simp add: counted_rows_rows)
  have le3: "3 \<le> length (collectCommentLikeRows comment_rows)" by (simp add: comment_rows_rows)
  have s2: "String_of 2 = ''2''" and s3: "String_of 3 = ''3''" by code_simp+
  have d11: "count_differs (lastCommentLikeAttempt (counted_world 11)) 2 (Some 12)"
    and d12: "\<not> count_differs (lastCommentLikeAttempt (counted_world 12)) 2 (Some 12)"
    by (simp_all add: count_differs_def counted_world_def)
  note changed = verifyNthCommentLike_visible_ordinal[OF second_comment_ordinal,
                   of counted_rows "counted_world 11"]
  note same = verifyNthCommentLike_visible_ordinal[OF second_comment_ordinal,
                of counted_rows "counted_world 12"]
  note liked = verifyNthCommentLike_visible_ordinal[OF third_comment_ordinal,
                 of comment_rows liked_world]
  from changed le obtain target where
      rel: "relocated_spec (lastCommentLikeAttempt (counted_world 11)) 2
              (collectCommentLikeRows counted_rows) target"
    and iff: "success (fst (verifyNthCommentLike second_comment counted_rows (counted_world 11)))
              \<longleftrightarrow> like_signal target
                  \<or> count_differs (lastCommentLikeAttempt (counted_world 11)) 2
                       (nearby_count_spec counted_rows target)"
    and msg: "success (fst (verifyNthCommentLike second_comment counted_rows (counted_world 11)))
              \<longrightarrow> message (fst (verifyNthCommentLike second_comment counted_rows (counted_world 11)))
                  = ''Comment #'' @ String_of (int 2) @ '' like verified (''
                      @ (if like_signal target then ''selected'' else ''count changed'') @ '')''"
    by blast
  have t: "target = heart 1300 False" using rel counted_target by (simp add: counted_rows_rows)
  have ok: "success (fst (verifyNthCommentLike second_comment counted_rows (counted_world 11)))"
    using iff d11 by (simp add: t counted_count)
  have okm: "message (fst (verifyNthCommentLike second_comment counted_rows (counted_world 11))) =
               ''Comment #2 like verified (count changed)''"
    using msg ok by (simp add: t counted_signal s2)
  from same le obtain target' where
      rel': "relocated_spec (lastCommentLikeAttempt (counted_world 12)) 2
              (collectCommentLikeRows counted_rows) target'"
    and iff': "success (fst (verifyNthCommentLike second_comment counted_rows (counted_world 12)))
              \<longleftrightarrow> like_signal target'
                  \<or> count_differs (lastCommentLikeAttempt (counted_world 12)) 2
                       (nearby_count_spec counted_rows target')"
    and msg': "\<not> success (fst (verifyNthCommentLike second_comment counted_rows (counted_world 12)))
              \<longrightarrow> message (fst (verifyNthCommentLike second_comment counted_rows (counted_world 12)))
                  = ''Comment #'' @ String_of (int 2) @ '' like not confirmed yet''"
    by blast
  have t': "target' = heart 1300 False" using rel' counted_target by (simp add: counted_rows_rows)
  have no: "\<not> success (fst (verifyNthCommentLike second_comment counted_rows (counted_world 12)))"
    using iff' d12 by (simp add: t' counted_count counted_signal)
  have nom: "message (fst (verifyNthCommentLike second_comment counted_rows (counted_world 12))) =
               ''Comment #2 like not confirmed yet''"
    using msg' no by (simp add: s2)
  from changed have w: "snd (verifyNthCommentLike second_comment counted_rows (counted_world 11))
                         = counted_world 11" by blast
  from liked le3 obtain target3 where
      rel3: "relocated_spec (lastCommentLikeAttempt liked_world) 3
              (collectCommentLikeRows comment_rows) target3"
    and iff3: "success (fst (verifyNthCommentLike third_comment comment_rows liked_world))
              \<longleftrightarrow> like_signal target3
                  \<or> count_differs (lastCommentLikeAttempt liked_world) 3
                       (nearby_count_spec comment_rows target3)"
    and msg3: "success (fst (verifyNthCommentLike third_comment comment_rows liked_world))
              \<longrightarrow> message (fst (verifyNthCommentLike third_comment comment_rows liked_world))
                  = ''Comment #'' @ String_of (int 3) @ '' like verified (''
                      @ (if like_signal target3 then ''selected'' else ''count changed'') @ '')''"
    by blast
  have t3: "target3 = heart 1600 True" using rel3 liked_target by (simp add: comment_rows_rows)
  have ok3: "success (fst (verifyNthCommentLike third_comment comment_rows liked_world))"
    using iff3 by (simp add: t3 liked_signal)
  have okm3: "message (fst (verifyNthCommentLike third_comment comment_rows liked_world)) =
               ''Comment #3 like verified (selected)''"
    using msg3 ok3 by (simp add: t3 liked_signal s3)
  from second_comment_ordinal le rel[unfolded t] counted_signal counted_count ok okm no nom w
    third_comment_ordinal le3 ok3 okm3
  show ?thesis by blast
qed


section \<open>Screen capture with a missing root\<close>

lemma loop_all_null:
  assumes "\<forall>j < length ds. roots s (reads s + j) = None"
  shows "screen_tree_loop capture L ds s =
           ([], s\<lparr>reads := reads s + length ds, slept := slept s @ ds\<rparr>)"
  using assms
proof (induction ds arbitrary: s)
  case Nil
  then show ?case by simp
next
  case (Cons d ds)
  let ?s' = "s\<lparr>reads := Suc (reads s), slept := slept s @ [d]\<rparr>"
  from Cons.prems have r0: "roots s (reads s) = None" by force
  have "\<forall>j < length ds. roots ?s' (reads ?s' + j) = None"
  proof (intro allI impI)
    fix j assume "j < length ds"
    then have "Suc j < length (d # ds)" by simp
    with Cons.prems have "roots s (reads s + Suc j) = None" by blast
    then show "roots ?s' (reads ?s' + j) = None" by simp
  qed
  from Cons.IH[OF this] show ?case using r0 by (simp add: Let_def)
qed

lemma loop_empty_exhausts:
  assumes "\<forall>d \<in> set (butlast ds). d < L"
    and "fst (screen_tree_loop capture L ds s) = []"
  shows "reads (snd (screen_tree_loop capture L ds s)) = reads s + length ds"
  using assms
proof (induction ds arbitrary: s)
  case Nil
  then show ?case by simp
next
  case (Cons d ds)
  let ?s' = "s\<lparr>reads := Suc (reads s), slept := slept s @ [d]\<rparr>"
  have bl: "\<forall>d \<in> set (butlast ds). d < L" using Cons.prems(1) by (auto split: if_splits)
  have rec: "fst (screen_tree_loop capture L ds ?s') = []
             \<Longrightarrow> reads (snd (screen_tree_loop capture L ds ?s')) = Suc (reads s) + length ds"
    using Cons.IH[OF bl, of ?s'] by simp
  show ?case
  proof (cases "roots s (reads s)")
    case None
    then show ?thesis using Cons.prems(2) rec by (simp add: Let_def)
  next
    case (Some r)
    show ?thesis
    proof (cases "capture r = [] \<and> d < L")
      case True
      then show ?thesis using Some Cons.prems(2) rec by (simp add: Let_def)
    next
      case False
      with Some Cons.prems(2) have e: "capture r = []" and nl: "\<not> d < L"
        by (auto simp: Let_def split: if_splits)
      have "ds = []"
      proof (rule ccontr)
        assume "ds \<noteq> []"
        then have "d \<in> set (butlast (d # ds))" by simp
        with Cons.prems(1) nl show False by blast
      qed
      then show ?thesis using Some e nl by (simp add: Let_def)
    qed
  qed
qed

lemma loop_first_nonempty:
  assumes "k < length ds"
    and "roots s (reads s + k) = Some r"
    and "capture r \<noteq> []"
    and "\<forall>j < k. case roots s (reads s + j) of None \<Rightarrow> True | Some r' \<Rightarrow> capture r' = []"
    and "\<forall>j < k. ds ! j < L"
  shows "screen_tree_loop capture L ds s =
           (capture r, s\<lparr>reads := reads s + Suc k, slept := slept s @ take k ds,
                          lastScreenTree := capture r\<rparr>)"
  using assms
proof (induction ds arbitrary: s k)
  case Nil
  then show ?case by simp
next
  case (Cons d ds)
  show ?case
  proof (cases k)
    case 0
    with Cons.prems show ?thesis by (simp add: Let_def)
  next
    case (Suc k')
    let ?s' = "s\<lparr>reads := Suc (reads s), slept := slept s @ [d]\<rparr>"
    have a: "k' < length ds" using Cons.prems(1) Suc by simp
    have b: "roots ?s' (reads ?s' + k') = Some r" using Cons.prems(2) Suc by simp
    have c: "\<forall>j < k'. case roots ?s' (reads ?s' + j) of None \<Rightarrow> True | Some r' \<Rightarrow> capture r' = []"
    proof (intro allI impI)
      fix j assume "j < k'"
      then have "Suc j < k" using Suc by simp
      with Cons.prems(4) have "case roots s (reads s + Suc j) of None \<Rightarrow> True | Some r' \<Rightarrow> capture r' = []"
        by blast
      then show "case roots ?s' (reads ?s' + j) of None \<Rightarrow> True | Some r' \<Rightarrow> capture r' = []" by simp
    qed
    have d': "\<forall>j < k'. ds ! j < L"
    proof (intro allI impI)
      fix j assume "j < k'"
      then have "Suc j < k" using Suc by simp
      with Cons.prems(5) have "(d # ds) ! Suc j < L" by blast
      then show "ds ! j < L" by simp
    qed
    have rec: "screen_tree_loop capture L ds ?s' =
           (capture r, s\<lparr>reads := reads s + Suc k, slept := slept s @ take k (d # ds),
                          lastScreenTree := capture r\<rparr>)"
      using Cons.IH[OF a b Cons.prems(3) c d'] Suc by simp
    have first: "case roots s (reads s) of None \<Rightarrow> True | Some r' \<Rightarrow> capture r' = []"
      using Cons.prems(4) Suc by force
    have dl: "d < L" using Cons.prems(5) Suc by force
    show ?thesis
      using first dl rec by (simp add: Let_def split: option.splits)
  qed
qed

text \<open>
  C6. \<^verbatim>\<open>getScreenTree\<close> makes up to five attempts. When the root is \<^verbatim>\<open>null\<close> at
  all five, it waits 50, 100, 200, 300 and 500 ms, one delay after each attempt, and returns
  the empty list. Whenever it returns the empty list it has made all five attempts. When
  some attempt is the first to find a root whose capture is not empty (each earlier one
  found no root or an empty capture), that capture is returned and stored, after the
  delays of the earlier attempts only.
\<close>

theorem getScreenTree_retries:
  "((\<forall>j < 5. roots s (reads s + j) = None) \<longrightarrow>
      getScreenTree capture s =
        ([], s\<lparr>reads := reads s + 5, slept := slept s @ [50, 100, 200, 300, 500]\<rparr>))
   \<and> (fst (getScreenTree capture s) = [] \<longrightarrow>
        reads (snd (getScreenTree capture s)) = reads s + 5)
   \<and> (\<forall>k r. k < 5 \<and> roots s (reads s + k) = Some r \<and> capture r \<noteq> []
          \<and> (\<forall>j < k. case roots s (reads s + j) of None \<Rightarrow> True | Some r' \<Rightarrow> capture r' = []) \<longrightarrow>
        getScreenTree capture s =
          (capture r, s\<lparr>reads := reads s + Suc k,
                         slept := slept s @ take k [50, 100, 200, 300, 500],
                         lastScreenTree := capture r\<rparr>))"
proof (intro conjI impI allI)
  assume "\<forall>j < 5. roots s (reads s + j) = None"
  then have "\<forall>j < length delays. roots s (reads s + j) = None" by (simp add: delays_def)
  from loop_all_null[OF this, of capture "last delays"]
  show "getScreenTree capture s =
        ([], s\<lparr>reads := reads s + 5, slept := slept s @ [50, 100, 200, 300, 500]\<rparr>)"
    by (simp add: getScreenTree_def delays_def)
next
  assume e: "fst (getScreenTree capture s) = []"
  have "\<forall>d \<in> set (butlast delays). d < last delays" by (simp add: delays_def)
  from loop_empty_exhausts[OF this, of capture s] e
  show "reads (snd (getScreenTree capture s)) = reads s + 5"
    by (simp add: getScreenTree_def delays_def)
next
  fix k r
  assume h: "k < 5 \<and> roots s (reads s + k) = Some r \<and> capture r \<noteq> []
          \<and> (\<forall>j < k. case roots s (reads s + j) of None \<Rightarrow> True | Some r' \<Rightarrow> capture r' = [])"
  then have k: "k < length delays" by (simp add: delays_def)
  have "\<forall>j < k. delays ! j < last delays"
  proof (intro allI impI)
    fix j assume "j < k"
    with h have "j < 4" by simp
    then have "j = 0 \<or> j = 1 \<or> j = 2 \<or> j = 3" by arith
    then show "delays ! j < last delays" by (auto simp: delays_def)
  qed
  from loop_first_nonempty[OF k _ _ _ this, of s r capture] h
  show "getScreenTree capture s =
          (capture r, s\<lparr>reads := reads s + Suc k,
                         slept := slept s @ take k [50, 100, 200, 300, 500],
                         lastScreenTree := capture r\<rparr>)"
    by (simp add: getScreenTree_def delays_def)
qed

theorem getScreenTree_retries_witness:
  "getScreenTree (\<lambda>r. r) no_root =
     ([], no_root\<lparr>reads := 5, slept := [50, 100, 200, 300, 500]\<rparr>)
   \<and> reads (snd (getScreenTree (\<lambda>r. r) no_root)) = 5
   \<and> getScreenTree (\<lambda>r. r) late_root =
       ([''OK''], late_root\<lparr>reads := 3, slept := [50, 100], lastScreenTree := [''OK'']\<rparr>)"
proof -
  have n: "\<forall>j < 5. roots no_root (reads no_root + j) = None" by (simp add: no_root_def)
  from getScreenTree_retries[of no_root "\<lambda>r. r"] n
  have a: "getScreenTree (\<lambda>r. r) no_root =
     ([], no_root\<lparr>reads := reads no_root + 5, slept := slept no_root @ [50, 100, 200, 300, 500]\<rparr>)"
    by blast
  then have e: "fst (getScreenTree (\<lambda>r. r) no_root) = []" by simp
  from getScreenTree_retries[of no_root "\<lambda>r. r"] e
  have b: "reads (snd (getScreenTree (\<lambda>r. r) no_root)) = reads no_root + 5" by blast
  have l: "(2::nat) < 5 \<and> roots late_root (reads late_root + 2) = Some [''OK'']
           \<and> (\<lambda>r. r) [''OK''] \<noteq> []
           \<and> (\<forall>j < 2. case roots late_root (reads late_root + j) of
                          None \<Rightarrow> True | Some r' \<Rightarrow> (\<lambda>r. r) r' = [])"
    by (simp add: late_root_def less_Suc_eq numeral_2_eq_2)
  from getScreenTree_retries[of late_root "\<lambda>r. r"] l
  have c: "getScreenTree (\<lambda>r. r) late_root =
          ((\<lambda>r. r) [''OK''], late_root\<lparr>reads := reads late_root + Suc 2,
                         slept := slept late_root @ take 2 [50, 100, 200, 300, 500],
                         lastScreenTree := (\<lambda>r. r) [''OK'']\<rparr>)"
    by blast
  from a b c show ?thesis by (simp add: no_root_def late_root_def)
qed


section \<open>Pairing codes\<close>

lemma isRateLimited_table: "pairingCode (snd (isRateLimited ip now s)) = pairingCode s"
  by (simp add: isRateLimited_def split: option.splits)

lemma isRateLimited_issued: "issued (snd (isRateLimited ip now s)) = issued s"
  by (simp add: isRateLimited_def split: option.splits)








section \<open>Status without a claim\<close>

lemma create_keeps_others:
  assumes "u' \<noteq> u" and "\<forall>r \<in> set (pairingCode s). userId r \<noteq> u"
  shows "\<forall>r \<in> set (pairingCode (snd (pairing_create u' now c i s))). userId r \<noteq> u"
  using assms by (auto simp: pairing_create_def Let_def)

lemma create_issued: "issued (snd (pairing_create u' now c i s)) = issued s"
  by (simp add: pairing_create_def Let_def)

lemma claim_keeps_others:
  assumes "\<forall>r \<in> set (pairingCode s). userId r \<noteq> u"
    and "\<forall>p \<in> set (issued s). fst p \<noteq> u"
  shows "(\<forall>r \<in> set (pairingCode (snd (pairing_claim ip t1 t2 bc key s))). userId r \<noteq> u)
         \<and> (\<forall>p \<in> set (issued (snd (pairing_claim ip t1 t2 bc key s))). fst p \<noteq> u)"
proof -
  obtain limited s0 where l: "isRateLimited ip t1 s = (limited, s0)" by (cases "isRateLimited ip t1 s")
  have tb: "pairingCode s0 = pairingCode s" using isRateLimited_table[of ip t1 s] l by simp
  have iss: "issued s0 = issued s" using isRateLimited_issued[of ip t1 s] l by simp
  show ?thesis
    using l tb iss assms
    by (auto simp: pairing_claim_def Let_def split: list.splits option.splits
             dest!: filter_eq_ConsD)
qed

lemma no_create_invariant:
  assumes "\<forall>e \<in> set evs. \<not> creates_for u e"
    and "\<forall>r \<in> set (pairingCode s). userId r \<noteq> u"
    and "\<forall>p \<in> set (issued s). fst p \<noteq> u"
  shows "(\<forall>r \<in> set (pairingCode (pairing_run evs s)). userId r \<noteq> u)
         \<and> (\<forall>p \<in> set (issued (pairing_run evs s)). fst p \<noteq> u)"
  using assms
proof (induction evs arbitrary: s)
  case Nil
  then show ?case by (simp add: pairing_run_def)
next
  case (Cons e evs)
  have step: "(\<forall>r \<in> set (pairingCode (pairing_step e s)). userId r \<noteq> u)
              \<and> (\<forall>p \<in> set (issued (pairing_step e s)). fst p \<noteq> u)"
  proof (cases e)
    case (Create u' now c i)
    with Cons.prems(1) have "u' \<noteq> u" by simp
    from create_keeps_others[OF this Cons.prems(2)] Cons.prems(3) Create
    show ?thesis by (simp add: create_issued)
  next
    case (Claim ip t1 t2 bc key)
    with claim_keeps_others[OF Cons.prems(2,3)] show ?thesis by simp
  qed
  have "\<forall>e \<in> set evs. \<not> creates_for u e" using Cons.prems(1) by simp
  from Cons.IH[OF this] step
  have "(\<forall>r \<in> set (pairingCode (pairing_run evs (pairing_step e s))). userId r \<noteq> u)
         \<and> (\<forall>p \<in> set (issued (pairing_run evs (pairing_step e s))). fst p \<noteq> u)"
    by blast
  then show ?case by (simp add: pairing_run_def)
qed

text \<open>
  C10. The status route reports \<open>paired = True\<close> for every user with no row in the
  table; in particular, after any history of create and claim requests from the empty
  table in which the user never created a code, the route reports \<open>paired = True\<close> for
  the user although no claim ever issued a key for that user.
\<close>

theorem pairing_status_without_claim:
  "((\<forall>r \<in> set (pairingCode s). userId r \<noteq> u) \<longrightarrow> paired (pairing_status u now s))
   \<and> ((\<forall>e \<in> set evs. \<not> creates_for u e) \<longrightarrow>
        paired (pairing_status u now (pairing_run evs pairing_init))
        \<and> (\<forall>p \<in> set (issued (pairing_run evs pairing_init)). fst p \<noteq> u))"
proof (intro conjI impI)
  assume "\<forall>r \<in> set (pairingCode s). userId r \<noteq> u"
  then have "filter (\<lambda>r. userId r = u) (pairingCode s) = []" by (auto simp: filter_empty_conv)
  then show "paired (pairing_status u now s)" by (simp add: pairing_status_def)
next
  assume a: "\<forall>e \<in> set evs. \<not> creates_for u e"
  have "(\<forall>r \<in> set (pairingCode (pairing_run evs pairing_init)). userId r \<noteq> u)
         \<and> (\<forall>p \<in> set (issued (pairing_run evs pairing_init)). fst p \<noteq> u)"
    by (rule no_create_invariant[OF a]) (simp_all add: pairing_init_def)
  then have i: "\<forall>r \<in> set (pairingCode (pairing_run evs pairing_init)). userId r \<noteq> u"
    and j: "\<forall>p \<in> set (issued (pairing_run evs pairing_init)). fst p \<noteq> u" by auto
  from i have "filter (\<lambda>r. userId r = u) (pairingCode (pairing_run evs pairing_init)) = []"
    by (auto simp: filter_empty_conv)
  then show "paired (pairing_status u now (pairing_run evs pairing_init))"
    by (simp add: pairing_status_def)
  from j show "\<forall>p \<in> set (issued (pairing_run evs pairing_init)). fst p \<noteq> u" .
qed

theorem pairing_status_without_claim_witness:
  "paired (pairing_status ''alice'' 5000 pairing_init)
   \<and> paired (pairing_status ''alice'' 5000
        (pairing_run [Create ''bob'' 0 ''654321'' ''row-9'',
                      Claim ''10.0.0.7'' 1000 1000 (Some ''654321'') (Some ''key-b'')] pairing_init))
   \<and> issued (pairing_run [Create ''bob'' 0 ''654321'' ''row-9'',
                      Claim ''10.0.0.7'' 1000 1000 (Some ''654321'') (Some ''key-b'')] pairing_init)
      = [(''bob'', ''key-b'')]"
proof -
  have a: "\<forall>r \<in> set (pairingCode pairing_init). userId r \<noteq> ''alice''" by (simp add: pairing_init_def)
  have b: "\<forall>e \<in> set [Create ''bob'' 0 ''654321'' ''row-9'',
                      Claim ''10.0.0.7'' 1000 1000 (Some ''654321'') (Some ''key-b'')].
             \<not> creates_for ''alice'' e" by simp
  have c: "issued (pairing_run [Create ''bob'' 0 ''654321'' ''row-9'',
                      Claim ''10.0.0.7'' 1000 1000 (Some ''654321'') (Some ''key-b'')] pairing_init)
      = [(''bob'', ''key-b'')]"
    by (simp add: pairing_run_def pairing_create_def pairing_claim_def pairing_init_def
          isRateLimited_def truthy_def trim_def white_space_def six_digits_def is_digit_def Let_def)
  from pairing_status_without_claim[of pairing_init "''alice''" 5000 "[Create ''bob'' 0 ''654321'' ''row-9'',
                      Claim ''10.0.0.7'' 1000 1000 (Some ''654321'') (Some ''key-b'')]"] a b c
  show ?thesis by blast
qed


section \<open>Goal admission\<close>

lemma resolve_llm_frame:
  assumes "llmConfigTable s' = llmConfigTable s" and "LLM_PROVIDER s' = LLM_PROVIDER s"
    and "LLM_API_KEY s' = LLM_API_KEY s"
  shows "resolve_llm user body s' = resolve_llm user body s"
  using assms by (simp add: resolve_llm_def cong: option.case_cong list.case_cong if_cong)

lemma goals_admit_Inr:
  assumes "goals_admit user body s = Inr d"
  shows "truthy (deviceId_b body) \<and> truthy (goal_b body)
         \<and> find_device (the (deviceId_b body)) s = Some d \<and> userId_dev d = user
         \<and> activeSessions_g s (trackingKey d) = None"
  using assms by (auto simp: goals_admit_def split: if_splits option.splits)

text \<open>
  C1, amended. When a submission has been accepted for a device and its loop has not
  settled, a second submission that names a connected device of the caller with the same
  tracking key (the persistent device id, or the connection id without one) gets the
  conflict response, which carries the first submission's goal and, as session id, the
  placeholder \<open>pending\<close> that the registry holds for every running session; nothing is
  started. Once the first loop settles, with a result or with an error, the entry is
  gone and the same second submission is started, provided an LLM configuration can be
  found for it.
\<close>

theorem goals_admission:
  assumes adm: "goals_admit user1 body1 s = Inr d1"
    and llm: "resolve_llm user1 body1 s \<noteq> None"
    and same: "truthy (deviceId_b body2)" "truthy (goal_b body2)"
      "find_device (the (deviceId_b body2)) s = Some d2" "userId_dev d2 = user2"
      "trackingKey d2 = trackingKey d1"
  shows "fst (goals_post user1 body1 s) =
           Started (the (deviceId_b body1)) (the (goal_b body1)) ''started''
         \<and> goals_post user2 body2 (snd (goals_post user1 body1 s)) =
             (Conflict ''agent already running on this device'' ''pending'' (the (goal_b body1)),
              snd (goals_post user1 body1 s))
         \<and> (\<forall>outcome.
               activeSessions_g (loop_settled (trackingKey d1) outcome (snd (goals_post user1 body1 s)))
                 (trackingKey d1) = None
               \<and> (resolve_llm user2 body2 s \<noteq> None \<longrightarrow>
                    fst (goals_post user2 body2
                           (loop_settled (trackingKey d1) outcome (snd (goals_post user1 body1 s)))) =
                      Started (the (deviceId_b body2)) (the (goal_b body2)) ''started''))"
proof -
  from llm obtain cfg where cfg: "resolve_llm user1 body1 s = Some cfg" by auto
  define s1 where "s1 = snd (goals_post user1 body1 s)"
  have post1: "goals_post user1 body1 s =
      (Started (the (deviceId_b body1)) (the (goal_b body1)) ''started'',
       s\<lparr>started := started s @ [\<lparr>deviceId_o = deviceId d1,
                          persistentDeviceId_o = persistentDeviceId d1,
                          userId_o = user1,
                          goal_o = the (goal_b body1),
                          llmConfig = cfg,
                          maxSteps_o = maxSteps body1\<rparr>],
          activeSessions_g := (activeSessions_g s)(trackingKey d1 :=
             Some \<lparr>sessionId = ''pending'', goal = the (goal_b body1)\<rparr>)\<rparr>)"
    by (simp add: goals_post_def adm goals_launch_def cfg Let_def)
  have s1: "s1 = s\<lparr>started := started s @ [\<lparr>deviceId_o = deviceId d1,
                          persistentDeviceId_o = persistentDeviceId d1,
                          userId_o = user1,
                          goal_o = the (goal_b body1),
                          llmConfig = cfg,
                          maxSteps_o = maxSteps body1\<rparr>],
          activeSessions_g := (activeSessions_g s)(trackingKey d1 :=
             Some \<lparr>sessionId = ''pending'', goal = the (goal_b body1)\<rparr>)\<rparr>"
    unfolding s1_def post1 by simp
  have fd1: "find_device (the (deviceId_b body2)) s1 = Some d2"
    using same(3) by (simp add: s1 find_device_def cong: option.case_cong)
  have a: "fst (goals_post user1 body1 s) =
           Started (the (deviceId_b body1)) (the (goal_b body1)) ''started''"
    by (simp add: post1)
  have b: "goals_post user2 body2 s1 =
             (Conflict ''agent already running on this device'' ''pending'' (the (goal_b body1)), s1)"
    using same fd1 by (simp add: goals_post_def goals_admit_def s1)
  have c: "activeSessions_g (loop_settled (trackingKey d1) outcome s1) (trackingKey d1) = None
           \<and> (resolve_llm user2 body2 s \<noteq> None \<longrightarrow>
                fst (goals_post user2 body2 (loop_settled (trackingKey d1) outcome s1)) =
                  Started (the (deviceId_b body2)) (the (goal_b body2)) ''started'')" for outcome
  proof -
    define s2 where "s2 = loop_settled (trackingKey d1) outcome s1"
    have s2: "s2 = s1\<lparr>activeSessions_g := (activeSessions_g s1)(trackingKey d1 := None)\<rparr>"
      unfolding s2_def by (cases outcome) simp_all
    have free: "activeSessions_g s2 (trackingKey d1) = None" by (simp add: s2)
    have fd2: "find_device (the (deviceId_b body2)) s2 = Some d2"
      using fd1 by (simp add: s2 find_device_def cong: option.case_cong)
    have adm2: "goals_admit user2 body2 s2 = Inr d2"
      using same fd2 free by (simp add: goals_admit_def)
    have r: "resolve_llm user2 body2 s2 = resolve_llm user2 body2 s"
      by (rule resolve_llm_frame) (simp_all add: s2 s1)
    have "resolve_llm user2 body2 s \<noteq> None \<Longrightarrow>
            fst (goals_post user2 body2 s2) =
              Started (the (deviceId_b body2)) (the (goal_b body2)) ''started''"
      using adm2 r by (auto simp: goals_post_def goals_launch_def Let_def)
    with free show ?thesis unfolding s2_def by blast
  qed
  from a b c show ?thesis unfolding s1_def by blast
qed

lemma first_goal_admitted: "goals_admit ''alice'' first_goal one_phone = Inr phone"
  by (simp add: goals_admit_def first_goal_def one_phone_def phone_def find_device_def truthy_def)

lemma env_llm:
  "resolve_llm ''alice'' first_goal one_phone \<noteq> None"
  "resolve_llm ''alice'' second_goal one_phone \<noteq> None"
  by (simp_all add: resolve_llm_def first_goal_def second_goal_def one_phone_def truthy_def)

theorem goals_admission_witness:
  "goals_post ''alice'' second_goal (snd (goals_post ''alice'' first_goal one_phone)) =
     (Conflict ''agent already running on this device'' ''pending'' ''open settings'',
      snd (goals_post ''alice'' first_goal one_phone))
   \<and> fst (goals_post ''alice'' second_goal
            (loop_settled ''dev-A'' (Rejected ''device disconnected'')
               (snd (goals_post ''alice'' first_goal one_phone)))) =
       Started ''dev-A'' ''send a mail'' ''started''"
proof -
  have k: "trackingKey phone = ''dev-A''" by (simp add: trackingKey_def phone_def)
  have g1: "the (goal_b first_goal) = ''open settings''" by (simp add: first_goal_def)
  have g2: "the (goal_b second_goal) = ''send a mail''" "the (deviceId_b second_goal) = ''dev-A''"
    by (simp_all add: second_goal_def)
  have same: "truthy (deviceId_b second_goal)" "truthy (goal_b second_goal)"
      "find_device (the (deviceId_b second_goal)) one_phone = Some phone"
      "userId_dev phone = ''alice''" "trackingKey phone = trackingKey phone"
    by (simp_all add: second_goal_def truthy_def find_device_def one_phone_def phone_def)
  note t = goals_admission[OF first_goal_admitted env_llm(1) same]
  from t have a: "goals_post ''alice'' second_goal (snd (goals_post ''alice'' first_goal one_phone)) =
             (Conflict ''agent already running on this device'' ''pending'' (the (goal_b first_goal)),
              snd (goals_post ''alice'' first_goal one_phone))"
    by blast
  from t have "resolve_llm ''alice'' second_goal one_phone \<noteq> None \<longrightarrow>
                    fst (goals_post ''alice'' second_goal
                           (loop_settled (trackingKey phone) (Rejected ''device disconnected'')
                              (snd (goals_post ''alice'' first_goal one_phone)))) =
                      Started (the (deviceId_b second_goal)) (the (goal_b second_goal)) ''started''"
    by blast
  with env_llm(2) have b: "fst (goals_post ''alice'' second_goal
                           (loop_settled (trackingKey phone) (Rejected ''device disconnected'')
                              (snd (goals_post ''alice'' first_goal one_phone)))) =
                      Started (the (deviceId_b second_goal)) (the (goal_b second_goal)) ''started''"
    by blast
  from a b show ?thesis unfolding k g1 g2 by blast
qed

text \<open>
  The check and the registration are one step only when the body brings its own API key.
  Otherwise the handler waits for the saved configuration in between, and two submissions
  for one device that both pass the check before either registers are both started.
\<close>

lemma goals_check_before_registration:
  "goals_admit ''alice'' first_goal one_phone = Inr phone
   \<and> goals_admit ''alice'' second_goal one_phone = Inr phone
   \<and> map goal_o (started (snd (goals_launch ''alice'' second_goal phone
                                (snd (goals_launch ''alice'' first_goal phone one_phone)))))
       = [''open settings'', ''send a mail'']"
  by (simp add: goals_admit_def goals_launch_def resolve_llm_def first_goal_def second_goal_def
        one_phone_def phone_def find_device_def truthy_def trackingKey_def Let_def)

text \<open>
  C1 as stated fails: the conflict response does not refer to the first session's
  identity. The agent loop creates the session id and reports it in its result; the
  registry only ever holds \<open>pending\<close>, and that is what the conflict response carries.
\<close>

theorem goals_conflict_counterexample:
  "fst (goals_post ''alice'' first_goal one_phone) = Started ''conn-1'' ''open settings'' ''started''
   \<and> fst (goals_post ''alice'' second_goal (snd (goals_post ''alice'' first_goal one_phone))) =
       Conflict ''agent already running on this device'' ''pending'' ''open settings''
   \<and> sessionId_r first_result \<noteq> ''pending''
   \<and> activeSessions_g
        (loop_settled ''dev-A'' (Fulfilled first_result)
           (snd (goals_post ''alice'' first_goal one_phone))) ''dev-A'' = None"
  by (simp add: goals_post_def goals_admit_def goals_launch_def resolve_llm_def first_goal_def
        second_goal_def one_phone_def phone_def find_device_def truthy_def trackingKey_def
        first_result_def Let_def)


section \<open>Voice sessions\<close>

lemma run_Nil [simp]: "run [] s = s"
  by (simp add: run_def)

lemma run_Cons [simp]: "run (e # evs) s = run evs (step e s)"
  by (simp add: run_def)

lemma run_append: "run (xs @ ys) s = run ys (run xs s)"
  by (simp add: run_def)

lemma run_chunks:
  assumes "activeSessions s d = Some r" and "heap s r = Some session"
  shows "run (map (VoiceChunk d) bs) s =
           s\<lparr>heap := (heap s)(r := Some (session\<lparr>chunks := chunks session @ bs,
                  totalBytes := totalBytes session + sum_list (map length bs)\<rparr>))\<rparr>"
  using assms
proof (induction bs arbitrary: s session)
  case Nil
  then have "(heap s)(r := Some session) = heap s" by (simp add: fun_upd_idem)
  then show ?case by simp
next
  case (Cons b bs)
  let ?session = "session\<lparr>chunks := chunks session @ [b], totalBytes := totalBytes session + length b\<rparr>"
  let ?s = "s\<lparr>heap := (heap s)(r := Some ?session)\<rparr>"
  have st: "handleVoiceChunk d b s = ?s" using Cons.prems by (simp add: handleVoiceChunk_def)
  have a: "run (map (VoiceChunk d) (b # bs)) s = run (map (VoiceChunk d) bs) ?s"
    by (simp add: st)
  have b: "run (map (VoiceChunk d) bs) ?s =
          ?s\<lparr>heap := (heap ?s)(r := Some (?session\<lparr>chunks := chunks ?session @ bs,
                  totalBytes := totalBytes ?session + sum_list (map length bs)\<rparr>))\<rparr>"
    by (rule Cons.IH) (simp_all add: Cons.prems)
  have c: "?s\<lparr>heap := (heap ?s)(r := Some (?session\<lparr>chunks := chunks ?session @ bs,
                  totalBytes := totalBytes ?session + sum_list (map length bs)\<rparr>))\<rparr>
           = s\<lparr>heap := (heap s)(r := Some (session\<lparr>chunks := chunks session @ (b # bs),
                  totalBytes := totalBytes session + sum_list (map length (b # bs))\<rparr>))\<rparr>"
    by (intro voice_state.equality) (simp_all add: add.assoc)
  show ?case by (rule trans[OF a trans[OF b c]])
qed

lemma quiet_step: "quiet s \<Longrightarrow> \<not> is_start e \<Longrightarrow> step e s = s"
  by (cases e)
     (simp_all add: quiet_def handleVoiceChunk_def handleVoiceSend_def handleVoiceCancel_def
        cleanupSession_def timer_fires_def transcription_returns_def)

lemma quiet_run: "quiet s \<Longrightarrow> \<forall>e \<in> set evs. \<not> is_start e \<Longrightarrow> run evs s = s"
  by (induction evs) (simp_all add: quiet_step)


lemma start_one: "handleVoiceStart ws d voice_init =
                    one_session d new_session (Some (0, ws)) (\<lambda>c. None) [] 0 (Some 0)"
  by (simp add: handleVoiceStart_def cleanupSession_def voice_init_def one_session_def
        new_session_def)

lemma chunks_one:
  "run (map (VoiceChunk d) cs) (one_session d session live cl snt nc (Some 0)) =
     one_session d (session\<lparr>chunks := chunks session @ cs,
                            totalBytes := totalBytes session + sum_list (map length cs)\<rparr>)
       live cl snt nc (Some 0)"
proof -
  have a: "activeSessions (one_session d session live cl snt nc (Some 0)) d = Some 0"
    and h: "heap (one_session d session live cl snt nc (Some 0)) 0 = Some session"
    by (simp_all add: one_session_def)
  show ?thesis
    unfolding run_chunks[OF a h]
    by (intro voice_state.equality) (simp_all add: one_session_def)
qed

lemma tick_one:
  "timer_fires 0 (one_session d session (Some (0, ws)) cl snt nc reg) =
     (if totalBytes session \<le> lastPartialOffset session \<or> totalBytes session < 3200
      then one_session d session (Some (0, ws)) cl snt nc reg
      else one_session d session (Some (0, ws))
             (cl(nc := Some (PartialCall 0 ws (concat (chunks session))))) snt (Suc nc) reg)"
  by (simp add: timer_fires_def one_session_def MIN_AUDIO_BYTES_def concatChunks_def)

lemma tick_cleared_one:
  "timer_fires t (one_session d session None cl snt nc reg) =
     one_session d session None cl snt nc reg"
  by (simp add: timer_fires_def one_session_def)

lemma partial_returns_one:
  assumes "cl c = Some (PartialCall 0 ws pcm)"
  shows "transcription_returns c (Some txt) (one_session d session live cl snt nc reg) =
           one_session d (session\<lparr>lastPartialOffset := totalBytes session\<rparr>) live (cl(c := None))
             (if txt \<noteq> [] then snt @ [(ws, transcript_partial txt)] else snt) nc reg"
  using assms
  by (simp add: transcription_returns_def one_session_def sendToDevice_def Let_def)

lemma send_one:
  assumes "partialTimer session = Some 0" and "3200 \<le> totalBytes session"
  shows "handleVoiceSend ws d (one_session d session live cl snt nc (Some 0)) =
           one_session d (session\<lparr>partialTimer := None\<rparr>) None
             (cl(nc := Some (FinalCall 0 ws d (concat (chunks session))))) snt (Suc nc) (Some 0)"
  using assms
  by (simp add: handleVoiceSend_def one_session_def clearInterval_def MIN_AUDIO_BYTES_def
        concatChunks_def Let_def)

lemma final_returns_one:
  assumes "cl c = Some (FinalCall 0 ws d pcm)"
  shows "transcription_returns c res (one_session d session live cl snt nc reg) =
           one_session d session live (cl(c := None))
             (snt @ [(ws, transcript_final (case res of None \<Rightarrow> [] | Some txt \<Rightarrow> txt))]) nc None"
  using assms
  by (simp add: transcription_returns_def one_session_def finish_send_def sendToDevice_def Let_def)

lemma cancel_one:
  assumes "partialTimer session = Some 0"
  shows "handleVoiceCancel d (one_session d session live cl snt nc (Some 0)) =
           one_session d session None cl snt nc None"
  using assms
  by (simp add: handleVoiceCancel_def cleanupSession_def one_session_def clearInterval_def Let_def)

lemma quiet_one: "quiet (one_session d session None (\<lambda>c. None) snt nc None)"
  by (simp add: quiet_def one_session_def)

lemma sent_one: "sent (one_session d session live cl snt nc reg) = snt"
  by (simp add: one_session_def)


lemma before_send_state:
  assumes "sum_list (map length bs) = 4000"
    and "sum_list (map length (take k bs)) < 3200"
  shows "run ([VoiceStart ws d] @ map (VoiceChunk d) (take k bs) @ [Tick 0]
               @ map (VoiceChunk d) (drop k bs) @ [Tick 0, Reply 0 (Some txt)]) voice_init =
           one_session d
             (new_session\<lparr>chunks := bs, totalBytes := 4000, lastPartialOffset := 4000\<rparr>)
             (Some (0, ws)) (\<lambda>c. None)
             (if txt \<noteq> [] then [(ws, transcript_partial txt)] else []) (Suc 0) (Some 0)"
proof -
  let ?early = "new_session\<lparr>chunks := chunks new_session @ take k bs,
                   totalBytes := totalBytes new_session + sum_list (map length (take k bs))\<rparr>"
  let ?full = "?early\<lparr>chunks := chunks ?early @ drop k bs,
                   totalBytes := totalBytes ?early + sum_list (map length (drop k bs))\<rparr>"
  have split: "sum_list (map length (take k bs)) + sum_list (map length (drop k bs)) = 4000"
    using assms(1) by (metis append_take_drop_id map_append sum_list_append)
  have full: "?full = new_session\<lparr>chunks := bs, totalBytes := 4000\<rparr>"
    using split by (simp add: new_session_def)
  have t1: "timer_fires 0 (one_session d ?early (Some (0, ws)) (\<lambda>c. None) [] 0 (Some 0)) =
              one_session d ?early (Some (0, ws)) (\<lambda>c. None) [] 0 (Some 0)"
    using assms(2) by (simp add: tick_one new_session_def)
  have t2: "timer_fires 0 (one_session d ?full (Some (0, ws)) (\<lambda>c. None) [] 0 (Some 0)) =
              one_session d ?full (Some (0, ws))
                ((\<lambda>c. None)(0 := Some (PartialCall 0 ws (concat bs)))) [] (Suc 0) (Some 0)"
    unfolding full by (simp add: tick_one new_session_def)
  have r: "transcription_returns 0 (Some txt)
             (one_session d ?full (Some (0, ws))
                ((\<lambda>c. None)(0 := Some (PartialCall 0 ws (concat bs)))) [] (Suc 0) (Some 0)) =
           one_session d (?full\<lparr>lastPartialOffset := totalBytes ?full\<rparr>) (Some (0, ws))
             (((\<lambda>c. None)(0 := Some (PartialCall 0 ws (concat bs))))(0 := None))
             (if txt \<noteq> [] then [] @ [(ws, transcript_partial txt)] else []) (Suc 0) (Some 0)"
    by (rule partial_returns_one) simp
  have e: "?full\<lparr>lastPartialOffset := totalBytes ?full\<rparr> =
             new_session\<lparr>chunks := bs, totalBytes := 4000, lastPartialOffset := 4000\<rparr>"
    using split by (simp add: new_session_def)
  have c: "((\<lambda>c. None)(0 := Some (PartialCall 0 ws (concat bs))))(0 := None)
             = (\<lambda>c. None :: transcription option)"
    by auto
  show ?thesis
    unfolding run_append
    apply (simp only: run_Cons run_Nil step.simps start_one chunks_one t1 t2 r)
    apply (simp only: e c append_Nil)
    done
qed

text \<open>
  C4, amended. A session is started and receives five chunks of 4,000 bytes in all; the
  timer fires once while fewer than 3,200 bytes are buffered and once after the last
  chunk, and the transcription that the second firing requests returns a text that is not
  empty. Then exactly one \<open>transcript_partial\<close> has been sent when \<open>voice_send\<close>
  arrives, and handling \<open>voice_send\<close>, to the return of its transcription, sends exactly
  one \<open>transcript_final\<close> after it. If \<open>voice_cancel\<close> is handled instead, nothing more
  is sent whatever follows, short of a new \<open>voice_start\<close>: no further partial transcript
  and no final one.
\<close>

theorem voice_session_counts:
  assumes "length bs = 5"
    and "sum_list (map length bs) = 4000"
    and "sum_list (map length (take k bs)) < 3200"
    and "txt \<noteq> []"
  shows "sent (run ([VoiceStart ws d] @ map (VoiceChunk d) (take k bs) @ [Tick 0]
                     @ map (VoiceChunk d) (drop k bs) @ [Tick 0, Reply 0 (Some txt)]) voice_init)
           = [(ws, transcript_partial txt)]
         \<and> sent (run [VoiceSend ws d, Reply 1 result]
                   (run ([VoiceStart ws d] @ map (VoiceChunk d) (take k bs) @ [Tick 0]
                     @ map (VoiceChunk d) (drop k bs) @ [Tick 0, Reply 0 (Some txt)]) voice_init))
           = [(ws, transcript_partial txt),
              (ws, transcript_final (case result of None \<Rightarrow> [] | Some t \<Rightarrow> t))]
         \<and> (\<forall>evs. (\<forall>e \<in> set evs. \<not> is_start e) \<longrightarrow>
               sent (run (VoiceCancel d # evs)
                   (run ([VoiceStart ws d] @ map (VoiceChunk d) (take k bs) @ [Tick 0]
                     @ map (VoiceChunk d) (drop k bs) @ [Tick 0, Reply 0 (Some txt)]) voice_init))
               = [(ws, transcript_partial txt)])"
proof -
  let ?session = "new_session\<lparr>chunks := bs, totalBytes := 4000, lastPartialOffset := 4000\<rparr>"
  let ?before = "one_session d ?session (Some (0, ws)) (\<lambda>c. None)
                   [(ws, transcript_partial txt)] (Suc 0) (Some 0)"
  have b: "run ([VoiceStart ws d] @ map (VoiceChunk d) (take k bs) @ [Tick 0]
                     @ map (VoiceChunk d) (drop k bs) @ [Tick 0, Reply 0 (Some txt)]) voice_init
           = ?before"
    using before_send_state[OF assms(2) assms(3)] assms(4) by simp
  have pt: "partialTimer ?session = Some 0" and tb: "3200 \<le> totalBytes ?session"
    by (simp_all add: new_session_def)
  have s1: "handleVoiceSend ws d ?before =
              one_session d (?session\<lparr>partialTimer := None\<rparr>) None
                ((\<lambda>c. None)(Suc 0 := Some (FinalCall 0 ws d (concat (chunks ?session)))))
                [(ws, transcript_partial txt)] (Suc (Suc 0)) (Some 0)"
    by (rule send_one[OF pt tb])
  have s2: "transcription_returns 1 result
              (one_session d (?session\<lparr>partialTimer := None\<rparr>) None
                ((\<lambda>c. None)(Suc 0 := Some (FinalCall 0 ws d (concat (chunks ?session)))))
                [(ws, transcript_partial txt)] (Suc (Suc 0)) (Some 0)) =
            one_session d (?session\<lparr>partialTimer := None\<rparr>) None
              (((\<lambda>c. None)(Suc 0 := Some (FinalCall 0 ws d (concat (chunks ?session)))))(1 := None))
              ([(ws, transcript_partial txt)]
                 @ [(ws, transcript_final (case result of None \<Rightarrow> [] | Some t \<Rightarrow> t))])
              (Suc (Suc 0)) None"
    by (rule final_returns_one) simp
  have c: "handleVoiceCancel d ?before =
             one_session d ?session None (\<lambda>c. None) [(ws, transcript_partial txt)] (Suc 0) None"
    by (rule cancel_one[OF pt])
  have first: "sent ?before = [(ws, transcript_partial txt)]" by (simp add: sent_one)
  have second: "sent (run [VoiceSend ws d, Reply 1 result] ?before)
           = [(ws, transcript_partial txt),
              (ws, transcript_final (case result of None \<Rightarrow> [] | Some t \<Rightarrow> t))]"
    by (simp only: run_Cons run_Nil step.simps s1 s2 sent_one append_Cons append_Nil)
  have third: "sent (run (VoiceCancel d # evs) ?before) = [(ws, transcript_partial txt)]"
    if "\<forall>e \<in> set evs. \<not> is_start e" for evs
  proof -
    have "run (VoiceCancel d # evs) ?before =
            run evs (one_session d ?session None (\<lambda>c. None) [(ws, transcript_partial txt)] (Suc 0) None)"
      by (simp only: run_Cons step.simps c)
    also have "\<dots> = one_session d ?session None (\<lambda>c. None) [(ws, transcript_partial txt)] (Suc 0) None"
      by (rule quiet_run[OF quiet_one that])
    finally show ?thesis by (simp add: sent_one)
  qed
  show ?thesis unfolding b using first second third by blast
qed


lemma five_chunks_total: "sum_list (map length five_chunks) = 4000"
  by (simp add: five_chunks_def chunk800_def)

theorem voice_session_counts_witness:
  "sent (run ([VoiceStart 7 ''phone''] @ map (VoiceChunk ''phone'') (take 3 five_chunks) @ [Tick 0]
               @ map (VoiceChunk ''phone'') (drop 3 five_chunks)
               @ [Tick 0, Reply 0 (Some ''hello'')]) voice_init)
     = [(7, transcript_partial ''hello'')]
   \<and> sent (run [VoiceSend 7 ''phone'', Reply 1 (Some ''hello world'')]
        (run ([VoiceStart 7 ''phone''] @ map (VoiceChunk ''phone'') (take 3 five_chunks) @ [Tick 0]
               @ map (VoiceChunk ''phone'') (drop 3 five_chunks)
               @ [Tick 0, Reply 0 (Some ''hello'')]) voice_init))
     = [(7, transcript_partial ''hello''), (7, transcript_final ''hello world'')]
   \<and> sent (run [VoiceCancel ''phone'', Tick 0, VoiceSend 7 ''phone'']
        (run ([VoiceStart 7 ''phone''] @ map (VoiceChunk ''phone'') (take 3 five_chunks) @ [Tick 0]
               @ map (VoiceChunk ''phone'') (drop 3 five_chunks)
               @ [Tick 0, Reply 0 (Some ''hello'')]) voice_init))
     = [(7, transcript_partial ''hello'')]"
proof -
  have l: "length five_chunks = 5" by (simp add: five_chunks_def)
  have e: "sum_list (map length (take 3 five_chunks)) < 3200"
    by (simp add: five_chunks_def chunk800_def)
  have t: "''hello'' \<noteq> []" by simp
  have q: "\<forall>e \<in> set [Tick 0, VoiceSend 7 ''phone'']. \<not> is_start e" by simp
  note inst = voice_session_counts[OF l five_chunks_total e t, of 7 "''phone''" "Some ''hello world''"]
  from inst have a: "sent (run ([VoiceStart 7 ''phone''] @ map (VoiceChunk ''phone'') (take 3 five_chunks) @ [Tick 0]
               @ map (VoiceChunk ''phone'') (drop 3 five_chunks)
               @ [Tick 0, Reply 0 (Some ''hello'')]) voice_init)
     = [(7, transcript_partial ''hello'')]" by blast
  from inst have b: "sent (run [VoiceSend 7 ''phone'', Reply 1 (Some ''hello world'')]
        (run ([VoiceStart 7 ''phone''] @ map (VoiceChunk ''phone'') (take 3 five_chunks) @ [Tick 0]
               @ map (VoiceChunk ''phone'') (drop 3 five_chunks)
               @ [Tick 0, Reply 0 (Some ''hello'')]) voice_init))
     = [(7, transcript_partial ''hello''),
        (7, transcript_final (case Some ''hello world'' of None \<Rightarrow> [] | Some t \<Rightarrow> t))]" by blast
  from inst q have c: "sent (run (VoiceCancel ''phone'' # [Tick 0, VoiceSend 7 ''phone''])
        (run ([VoiceStart 7 ''phone''] @ map (VoiceChunk ''phone'') (take 3 five_chunks) @ [Tick 0]
               @ map (VoiceChunk ''phone'') (drop 3 five_chunks)
               @ [Tick 0, Reply 0 (Some ''hello'')]) voice_init))
     = [(7, transcript_partial ''hello'')]" by blast
  from a b c show ?thesis by simp
qed

lemma upd_None: "(\<lambda>c. None)(k := None) = (\<lambda>c. None)"
  by auto

lemma chunk_one:
  "handleVoiceChunk d c (one_session d session live cl snt nc (Some 0)) =
     one_session d (session\<lparr>chunks := chunks session @ [c],
                            totalBytes := totalBytes session + length c\<rparr>)
       live cl snt nc (Some 0)"
  by (simp add: handleVoiceChunk_def one_session_def)

lemma partial_returns_upd:
  "transcription_returns c (Some txt)
     (one_session d session live (cl(c := Some (PartialCall 0 ws pcm))) snt nc reg) =
   one_session d (session\<lparr>lastPartialOffset := totalBytes session\<rparr>) live (cl(c := None))
     (if txt \<noteq> [] then snt @ [(ws, transcript_partial txt)] else snt) nc reg"
  using partial_returns_one[of "cl(c := Some (PartialCall 0 ws pcm))" c ws pcm] by simp

lemma four_then_one:
  "run [VoiceStart 7 ''phone'', VoiceChunk ''phone'' chunk800, VoiceChunk ''phone'' chunk800,
        VoiceChunk ''phone'' chunk800, VoiceChunk ''phone'' chunk800, Tick 0,
        Reply 0 (Some ''hello''), VoiceChunk ''phone'' chunk800, Tick 0,
        Reply 1 (Some ''hello world'')] voice_init =
   one_session ''phone''
     (new_session\<lparr>chunks := five_chunks, totalBytes := 4000, lastPartialOffset := 4000\<rparr>)
     (Some (0, 7)) (\<lambda>c. None)
     [(7, transcript_partial ''hello''), (7, transcript_partial ''hello world'')] 2 (Some 0)"
  by (simp add: start_one chunk_one tick_one partial_returns_upd upd_None new_session_def
        chunk800_def five_chunks_def numeral_2_eq_2)

text \<open>
  C4 as stated fails: five chunks of 4,000 bytes in all, four before the first firing of
  the timer and one before the second, give two \<open>transcript_partial\<close> messages before
  \<open>voice_send\<close>, since each firing finds at least 3,200 bytes and bytes newer than the
  last partial transcript.
\<close>

theorem voice_two_partials_counterexample:
  "length five_chunks = 5 \<and> sum_list (map length five_chunks) = 4000
   \<and> partials
       (run [VoiceStart 7 ''phone'', VoiceChunk ''phone'' chunk800, VoiceChunk ''phone'' chunk800,
             VoiceChunk ''phone'' chunk800, VoiceChunk ''phone'' chunk800, Tick 0,
             Reply 0 (Some ''hello''), VoiceChunk ''phone'' chunk800, Tick 0,
             Reply 1 (Some ''hello world'')] voice_init)
     = [(7, transcript_partial ''hello''), (7, transcript_partial ''hello world'')]"
  unfolding four_then_one
  by (simp add: partials_def sent_one five_chunks_def chunk800_def)

text \<open>
  A transcription that is under way when \<open>voice_cancel\<close> is handled still sends its
  \<open>transcript_partial\<close> when it returns: the callback of the timer does not look at the
  session again after its \<^verbatim>\<open>await\<close>.
\<close>

lemma partial_after_cancel:
  "sent (run [VoiceStart 7 ''phone'', VoiceChunk ''phone'' (replicate 4000 (CHR 0x00)), Tick 0,
              VoiceCancel ''phone'', Reply 0 (Some ''hello'')] voice_init)
     = [(7, transcript_partial ''hello'')]"
  by (simp add: start_one chunk_one tick_one cancel_one partial_returns_upd sent_one
        new_session_def)

section \<open>Teardown of voice sessions\<close>

lemma inv_init: "voice_inv voice_init"
  by (simp add: voice_inv_def timers_recorded_def registered_bounded_def finals_stopped_def
        voice_init_def)

lemma timers_recordedD:
  assumes "timers_recorded s" and "timers s t = Some (r, ws)"
  shows "r < nextSession s" and "\<exists>session. heap s r = Some session \<and> partialTimer session = Some t"
  using assms unfolding timers_recorded_def by blast+

lemma finals_stoppedD:
  assumes "finals_stopped s" and "calls s c = Some (FinalCall r ws d pcm)"
  shows "r < nextSession s" and "timers s t \<noteq> Some (r, ws')"
  using assms unfolding finals_stopped_def by blast+

lemma inv_frame:
  assumes i: "voice_inv s"
    and tm: "\<And>t p. timers s' t = Some p \<Longrightarrow> timers s t = Some p"
    and ns: "nextSession s' = nextSession s"
    and hp: "\<And>r session. heap s r = Some session \<Longrightarrow>
               \<exists>session'. heap s' r = Some session' \<and> partialTimer session' = partialTimer session"
    and ac: "\<And>d r. activeSessions s' d = Some r \<Longrightarrow> activeSessions s d = Some r"
    and cl: "\<And>c r ws d pcm. calls s' c = Some (FinalCall r ws d pcm) \<Longrightarrow>
               calls s c = Some (FinalCall r ws d pcm)"
  shows "voice_inv s'"
proof -
  from i have tr: "timers_recorded s" and rb: "registered_bounded s" and fs: "finals_stopped s"
    by (simp_all add: voice_inv_def)
  have "timers_recorded s'"
    unfolding timers_recorded_def
  proof (intro allI impI)
    fix t r ws assume "timers s' t = Some (r, ws)"
    then have live: "timers s t = Some (r, ws)" by (rule tm)
    from timers_recordedD[OF tr live] obtain session where
      "r < nextSession s" "heap s r = Some session" "partialTimer session = Some t" by blast
    with hp[of r session] ns
    show "r < nextSession s' \<and> (\<exists>session. heap s' r = Some session \<and> partialTimer session = Some t)"
      by auto
  qed
  moreover have "registered_bounded s'"
    unfolding registered_bounded_def
  proof (intro allI impI)
    fix d r assume "activeSessions s' d = Some r"
    then have "activeSessions s d = Some r" by (rule ac)
    with rb have "r < nextSession s" and "heap s r \<noteq> None"
      unfolding registered_bounded_def by blast+
    with hp[of r] ns show "r < nextSession s' \<and> heap s' r \<noteq> None" by auto
  qed
  moreover have "finals_stopped s'"
    unfolding finals_stopped_def
  proof (intro allI impI)
    fix c r ws d pcm assume "calls s' c = Some (FinalCall r ws d pcm)"
    then have old: "calls s c = Some (FinalCall r ws d pcm)" by (rule cl)
    show "r < nextSession s' \<and> (\<forall>t ws'. timers s' t \<noteq> Some (r, ws'))"
      using finals_stoppedD[OF fs old] tm ns by metis
  qed
  ultimately show ?thesis by (simp add: voice_inv_def)
qed

lemma cleanup_fields:
  "heap (cleanupSession d s) = heap s"
  "calls (cleanupSession d s) = calls s"
  "nextSession (cleanupSession d s) = nextSession s"
  "nextTimer (cleanupSession d s) = nextTimer s"
  "nextCall (cleanupSession d s) = nextCall s"
  "sent (cleanupSession d s) = sent s"
  "activeSessions (cleanupSession d s) = (activeSessions s)(d := None)"
  by (auto simp: cleanupSession_def clearInterval_def Let_def split: option.splits)

lemma cleanup_timers:
  "timers (cleanupSession d s) t = Some p \<Longrightarrow> timers s t = Some p"
  by (auto simp: cleanupSession_def clearInterval_def Let_def split: option.splits if_splits)

lemma cleanup_stops:
  assumes "timers_recorded s" and "activeSessions s d = Some r"
  shows "timers (cleanupSession d s) t \<noteq> Some (r, ws)"
proof
  assume a: "timers (cleanupSession d s) t = Some (r, ws)"
  then have live: "timers s t = Some (r, ws)" by (rule cleanup_timers)
  from timers_recordedD(2)[OF assms(1) live] obtain session where
    s: "heap s r = Some session" "partialTimer session = Some t" by blast
  then have "timers (cleanupSession d s) t = None"
    using assms(2) by (simp add: cleanupSession_def clearInterval_def Let_def)
  with a show False by simp
qed

lemma inv_cleanup: "voice_inv s \<Longrightarrow> voice_inv (cleanupSession d s)"
  by (rule inv_frame[where s = s])
     (auto simp: cleanup_fields dest: cleanup_timers split: if_splits)

lemma inv_chunk: "voice_inv s \<Longrightarrow> voice_inv (handleVoiceChunk d b s)"
  by (rule inv_frame[where s = s])
     (auto simp: handleVoiceChunk_def split: option.splits if_splits)

lemma inv_tick: "voice_inv s \<Longrightarrow> voice_inv (timer_fires t s)"
  by (rule inv_frame[where s = s])
     (auto simp: timer_fires_def split: option.splits if_splits)

lemma inv_finish: "voice_inv s \<Longrightarrow> voice_inv (finish_send ws d txt s)"
  by (rule inv_frame[where s = s])
     (auto simp: finish_send_def sendToDevice_def Let_def split: option.splits if_splits)

lemma inv_returns: "voice_inv s \<Longrightarrow> voice_inv (transcription_returns c res s)"
  by (rule inv_frame[where s = s])
     (auto simp: transcription_returns_def finish_send_def sendToDevice_def Let_def
           split: option.splits if_splits transcription.splits)

lemma inv_cancel: "voice_inv s \<Longrightarrow> voice_inv (handleVoiceCancel d s)"
  by (simp add: handleVoiceCancel_def inv_cleanup)


lemma inv_start: "voice_inv s \<Longrightarrow> voice_inv (handleVoiceStart ws d s)"
proof -
  assume "voice_inv s"
  then have i: "voice_inv (cleanupSession d s)" by (rule inv_cleanup)
  define s1 where "s1 = cleanupSession d s"
  define s' where "s' = handleVoiceStart ws d s"
  from i have tr: "timers_recorded s1" and rb: "registered_bounded s1" and fs: "finals_stopped s1"
    by (simp_all add: voice_inv_def s1_def)
  have tm: "timers s' = (timers s1)(nextTimer s1 := Some (nextSession s1, ws))"
    and hp: "heap s' = (heap s1)(nextSession s1 :=
               Some \<lparr>chunks = [], totalBytes = 0, partialTimer = Some (nextTimer s1),
                     lastPartialOffset = 0\<rparr>)"
    and ac: "activeSessions s' = (activeSessions s1)(d := Some (nextSession s1))"
    and ns: "nextSession s' = Suc (nextSession s1)"
    and cl: "calls s' = calls s1"
    by (simp_all add: s'_def s1_def handleVoiceStart_def Let_def)
  have "timers_recorded s'"
    unfolding timers_recorded_def
  proof (intro allI impI)
    fix t r ws' assume a: "timers s' t = Some (r, ws')"
    show "r < nextSession s' \<and> (\<exists>session. heap s' r = Some session \<and> partialTimer session = Some t)"
    proof (cases "t = nextTimer s1")
      case True
      with a have "r = nextSession s1" by (simp add: tm)
      with True show ?thesis by (simp add: ns hp)
    next
      case False
      with a have live: "timers s1 t = Some (r, ws')" by (simp add: tm)
      from timers_recordedD[OF tr live] obtain session where
        "r < nextSession s1" "heap s1 r = Some session" "partialTimer session = Some t" by blast
      then show ?thesis by (simp add: ns hp)
    qed
  qed
  moreover have "registered_bounded s'"
    using rb unfolding registered_bounded_def by (auto simp: ac ns hp less_Suc_eq)
  moreover have "finals_stopped s'"
    unfolding finals_stopped_def
  proof (intro allI impI)
    fix c r ws' d' pcm assume "calls s' c = Some (FinalCall r ws' d' pcm)"
    then have old: "calls s1 c = Some (FinalCall r ws' d' pcm)" by (simp add: cl)
    from finals_stoppedD[OF fs old] have lt: "r < nextSession s1"
      and none: "\<And>t w. timers s1 t \<noteq> Some (r, w)" by blast+
    show "r < nextSession s' \<and> (\<forall>t w. timers s' t \<noteq> Some (r, w))"
      using lt none by (auto simp: ns tm)
  qed
  ultimately show ?thesis by (simp add: voice_inv_def s'_def)
qed

lemma send_unregistered: "activeSessions s d = None \<Longrightarrow> handleVoiceSend ws d s = s"
  by (simp add: handleVoiceSend_def)

text \<open>The state of \<^verbatim>\<open>handleVoiceSend\<close> once it has stopped the session's timer.\<close>

lemma stopped_no_timer:
  assumes tr: "timers_recorded s" and h: "heap s r = Some session"
  shows "timers (case partialTimer session of
                   None \<Rightarrow> s
                 | Some t \<Rightarrow> (clearInterval t s)\<lparr>heap := (heap s)(r :=
                                 Some (session\<lparr>partialTimer := None\<rparr>))\<rparr>) t' \<noteq> Some (r, w)"
proof
  assume a: "timers (case partialTimer session of
                   None \<Rightarrow> s
                 | Some t \<Rightarrow> (clearInterval t s)\<lparr>heap := (heap s)(r :=
                                 Some (session\<lparr>partialTimer := None\<rparr>))\<rparr>) t' = Some (r, w)"
  then have live: "timers s t' = Some (r, w)"
    by (auto simp: clearInterval_def split: option.splits if_splits)
  from timers_recordedD(2)[OF tr live] h have p: "partialTimer session = Some t'" by auto
  with a show False by (simp add: clearInterval_def)
qed

lemma inv_stopped:
  assumes i: "voice_inv s" and h: "heap s r = Some session"
  shows "voice_inv (case partialTimer session of
                   None \<Rightarrow> s
                 | Some t \<Rightarrow> (clearInterval t s)\<lparr>heap := (heap s)(r :=
                                 Some (session\<lparr>partialTimer := None\<rparr>))\<rparr>)"
    (is "voice_inv ?s1")
proof -
  from i have tr: "timers_recorded s" and rb: "registered_bounded s" and fs: "finals_stopped s"
    by (simp_all add: voice_inv_def)
  have tm: "\<And>t p. timers ?s1 t = Some p \<Longrightarrow> timers s t = Some p"
    by (auto simp: clearInterval_def split: option.splits if_splits)
  have ns: "nextSession ?s1 = nextSession s" and ac: "activeSessions ?s1 = activeSessions s"
    and cl: "calls ?s1 = calls s"
    by (auto simp: clearInterval_def split: option.splits)
  have hp: "heap ?s1 r' = heap s r'" if "r' \<noteq> r" for r'
    using that by (auto simp: clearInterval_def split: option.splits)
  have "timers_recorded ?s1"
    unfolding timers_recorded_def
  proof (intro allI impI)
    fix t r' w assume a: "timers ?s1 t = Some (r', w)"
    then have live: "timers s t = Some (r', w)" by (rule tm)
    have ne: "r' \<noteq> r" using stopped_no_timer[OF tr h] a by blast
    from timers_recordedD[OF tr live] hp[OF ne] ns
    show "r' < nextSession ?s1 \<and> (\<exists>session. heap ?s1 r' = Some session \<and> partialTimer session = Some t)"
      by metis
  qed
  moreover have "registered_bounded ?s1"
    unfolding registered_bounded_def
  proof (intro allI impI)
    fix d' r' assume "activeSessions ?s1 d' = Some r'"
    then have "activeSessions s d' = Some r'" by (simp add: ac)
    with rb have "r' < nextSession s" and "heap s r' \<noteq> None"
      unfolding registered_bounded_def by blast+
    moreover have "heap ?s1 r' \<noteq> None"
      using \<open>heap s r' \<noteq> None\<close> by (auto simp: clearInterval_def split: option.splits)
    ultimately show "r' < nextSession ?s1 \<and> heap ?s1 r' \<noteq> None" by (simp add: ns)
  qed
  moreover have "finals_stopped ?s1"
    unfolding finals_stopped_def
  proof (intro allI impI)
    fix c r' ws' d' pcm assume "calls ?s1 c = Some (FinalCall r' ws' d' pcm)"
    then have old: "calls s c = Some (FinalCall r' ws' d' pcm)" by (simp add: cl)
    show "r' < nextSession ?s1 \<and> (\<forall>t w. timers ?s1 t \<noteq> Some (r', w))"
      using finals_stoppedD[OF fs old] tm ns by metis
  qed
  ultimately show ?thesis by (simp add: voice_inv_def)
qed

lemma inv_send: "voice_inv s \<Longrightarrow> voice_inv (handleVoiceSend ws d s)"
proof -
  assume i: "voice_inv s"
  show ?thesis
  proof (cases "activeSessions s d")
    case None
    then show ?thesis using i by (simp add: handleVoiceSend_def)
  next
    case (Some r)
    show ?thesis
    proof (cases "heap s r")
      case None
      then show ?thesis using i Some by (simp add: handleVoiceSend_def)
    next
      case (Some session)
      let ?s1 = "case partialTimer session of
                   None \<Rightarrow> s
                 | Some t \<Rightarrow> (clearInterval t s)\<lparr>heap := (heap s)(r :=
                                 Some (session\<lparr>partialTimer := None\<rparr>))\<rparr>"
      have i1: "voice_inv ?s1" by (rule inv_stopped[OF i Some])
      from i have tr: "timers_recorded s" and rb: "registered_bounded s"
        by (simp_all add: voice_inv_def)
      have none: "\<And>t w. timers ?s1 t \<noteq> Some (r, w)" by (rule stopped_no_timer[OF tr Some])
      have ns: "nextSession ?s1 = nextSession s"
        by (auto simp: clearInterval_def split: option.splits)
      have lt: "r < nextSession ?s1"
        using rb \<open>activeSessions s d = Some r\<close> ns unfolding registered_bounded_def by metis
      have hp1: "heap ?s1 r' = None \<Longrightarrow> heap s r' = None" for r'
        by (auto simp: clearInterval_def split: option.splits if_splits)
      have send: "handleVoiceSend ws d s =
              (if totalBytes session \<ge> MIN_AUDIO_BYTES then
                     ?s1\<lparr>calls := (calls ?s1)(nextCall ?s1 :=
                                   Some (FinalCall r ws d (concatChunks (chunks session)))),
                        nextCall := Suc (nextCall ?s1)\<rparr>
                   else finish_send ws d [] ?s1)"
        using Some \<open>activeSessions s d = Some r\<close> by (simp add: handleVoiceSend_def Let_def)
      show ?thesis
      proof (cases "totalBytes session \<ge> MIN_AUDIO_BYTES")
        case False
        then show ?thesis using send inv_finish[OF i1] by simp
      next
        case True
        from i1 have tr1: "timers_recorded ?s1" and rb1: "registered_bounded ?s1"
          and fs1: "finals_stopped ?s1" by (simp_all add: voice_inv_def)
        let ?s2 = "?s1\<lparr>calls := (calls ?s1)(nextCall ?s1 :=
                                   Some (FinalCall r ws d (concatChunks (chunks session)))),
                        nextCall := Suc (nextCall ?s1)\<rparr>"
        have "timers_recorded ?s2" using tr1 by (simp add: timers_recorded_def)
        moreover have "registered_bounded ?s2" using rb1 by (simp add: registered_bounded_def)
        moreover have "finals_stopped ?s2"
          unfolding finals_stopped_def
        proof (intro allI impI)
          fix c r' ws' d' pcm assume a: "calls ?s2 c = Some (FinalCall r' ws' d' pcm)"
          show "r' < nextSession ?s2 \<and> (\<forall>t w. timers ?s2 t \<noteq> Some (r', w))"
          proof (cases "c = nextCall ?s1")
            case True
            with a have "r' = r" by simp
            then show ?thesis using lt none by simp
          next
            case False
            with a have old: "calls ?s1 c = Some (FinalCall r' ws' d' pcm)" by simp
            from finals_stoppedD[OF fs1 old] show ?thesis by simp
          qed
        qed
        ultimately have "voice_inv ?s2" by (simp add: voice_inv_def)
        then show ?thesis using send True by simp
      qed
    qed
  qed
qed

lemma inv_step: "voice_inv s \<Longrightarrow> voice_inv (step e s)"
  by (cases e) (simp_all add: inv_start inv_chunk inv_send inv_cancel inv_tick inv_returns)

lemma inv_run: "voice_inv s \<Longrightarrow> voice_inv (run evs s)"
  by (induction evs arbitrary: s) (simp_all add: inv_step)

lemma inv_reachable: "voice_inv (run evs voice_init)"
  by (rule inv_run[OF inv_init])


text \<open>
  Teardown of the session that a handler finds registered. In every state \<open>s\<close> that the
  server can reach: after \<open>voice_cancel\<close> for a device no session is registered for it,
  and no live timer belongs to the session that was registered; a registered session is
  an allocated one; \<open>voice_send\<close> stops the timer of the registered session at once,
  completes at once with no session registered when the audio is shorter than the
  minimum, and otherwise starts the final transcription; when that transcription returns,
  with a text or with an error, no session is registered for the device and no live timer
  belongs to the session that was sent; a chunk for a device with no registered session
  changes nothing; and a device never has more than one registered session.
\<close>

lemma voice_teardown:
  assumes "s = run evs voice_init"
  shows "activeSessions (handleVoiceCancel d s) d = None
     \<and> (\<forall>r t w. activeSessions s d = Some r \<longrightarrow> timers (handleVoiceCancel d s) t \<noteq> Some (r, w))
     \<and> (\<forall>r. activeSessions s d = Some r \<longrightarrow> (\<exists>session. heap s r = Some session))
     \<and> (\<forall>r session t w. activeSessions s d = Some r \<and> heap s r = Some session \<longrightarrow>
           timers (handleVoiceSend ws d s) t \<noteq> Some (r, w)
           \<and> (totalBytes session < MIN_AUDIO_BYTES \<longrightarrow>
                activeSessions (handleVoiceSend ws d s) d = None)
           \<and> (MIN_AUDIO_BYTES \<le> totalBytes session \<longrightarrow>
                calls (handleVoiceSend ws d s) (nextCall s) =
                  Some (FinalCall r ws d (concatChunks (chunks session)))))
     \<and> (\<forall>c r w pcm result t w'. calls s c = Some (FinalCall r w d pcm) \<longrightarrow>
           activeSessions (transcription_returns c result s) d = None
           \<and> timers (transcription_returns c result s) t \<noteq> Some (r, w'))
     \<and> (activeSessions s d = None \<longrightarrow> handleVoiceChunk d b s = s)
     \<and> card {r. activeSessions s d = Some r} \<le> 1"
proof -
  have i: "voice_inv s" unfolding assms by (rule inv_reachable)
  then have tr: "timers_recorded s" and rb: "registered_bounded s" and fs: "finals_stopped s"
    by (simp_all add: voice_inv_def)
  have c1: "activeSessions (handleVoiceCancel d s) d = None"
    by (simp add: handleVoiceCancel_def cleanup_fields)
  have c2: "\<forall>r t w. activeSessions s d = Some r \<longrightarrow> timers (handleVoiceCancel d s) t \<noteq> Some (r, w)"
    using cleanup_stops[OF tr] by (simp add: handleVoiceCancel_def)
  have c3: "\<forall>r. activeSessions s d = Some r \<longrightarrow> (\<exists>session. heap s r = Some session)"
    using rb unfolding registered_bounded_def by auto
  have c4: "\<forall>r session t w. activeSessions s d = Some r \<and> heap s r = Some session \<longrightarrow>
           timers (handleVoiceSend ws d s) t \<noteq> Some (r, w)
           \<and> (totalBytes session < MIN_AUDIO_BYTES \<longrightarrow>
                activeSessions (handleVoiceSend ws d s) d = None)
           \<and> (MIN_AUDIO_BYTES \<le> totalBytes session \<longrightarrow>
                calls (handleVoiceSend ws d s) (nextCall s) =
                  Some (FinalCall r ws d (concatChunks (chunks session))))"
  proof (intro allI impI)
    fix r session t w assume a: "activeSessions s d = Some r \<and> heap s r = Some session"
    let ?s1 = "case partialTimer session of
                   None \<Rightarrow> s
                 | Some t \<Rightarrow> (clearInterval t s)\<lparr>heap := (heap s)(r :=
                                 Some (session\<lparr>partialTimer := None\<rparr>))\<rparr>"
    have none: "timers ?s1 t \<noteq> Some (r, w)" using a by (intro stopped_no_timer[OF tr]) simp
    have nc: "nextCall ?s1 = nextCall s" by (auto simp: clearInterval_def split: option.splits)
    have send: "handleVoiceSend ws d s =
              (if totalBytes session \<ge> MIN_AUDIO_BYTES then
                     ?s1\<lparr>calls := (calls ?s1)(nextCall ?s1 :=
                                   Some (FinalCall r ws d (concatChunks (chunks session)))),
                        nextCall := Suc (nextCall ?s1)\<rparr>
                   else finish_send ws d [] ?s1)"
      using a by (simp add: handleVoiceSend_def Let_def)
    show "timers (handleVoiceSend ws d s) t \<noteq> Some (r, w)
           \<and> (totalBytes session < MIN_AUDIO_BYTES \<longrightarrow>
                activeSessions (handleVoiceSend ws d s) d = None)
           \<and> (MIN_AUDIO_BYTES \<le> totalBytes session \<longrightarrow>
                calls (handleVoiceSend ws d s) (nextCall s) =
                  Some (FinalCall r ws d (concatChunks (chunks session))))"
      unfolding send using none nc
      by (simp add: finish_send_def sendToDevice_def Let_def)
  qed
  have c5: "\<forall>c r w pcm result t w'. calls s c = Some (FinalCall r w d pcm) \<longrightarrow>
           activeSessions (transcription_returns c result s) d = None
           \<and> timers (transcription_returns c result s) t \<noteq> Some (r, w')"
  proof (intro allI impI)
    fix c r w pcm result t w' assume a: "calls s c = Some (FinalCall r w d pcm)"
    from finals_stoppedD(2)[OF fs a] have "timers s t \<noteq> Some (r, w')" .
    then show "activeSessions (transcription_returns c result s) d = None
           \<and> timers (transcription_returns c result s) t \<noteq> Some (r, w')"
      using a by (simp add: transcription_returns_def finish_send_def sendToDevice_def Let_def)
  qed
  have c6: "activeSessions s d = None \<longrightarrow> handleVoiceChunk d b s = s"
    by (simp add: handleVoiceChunk_def)
  have c7: "card {r. activeSessions s d = Some r} \<le> 1"
  proof (cases "activeSessions s d")
    case None
    then show ?thesis by simp
  next
    case (Some r)
    then have "{r'. activeSessions s d = Some r'} = {r}" by auto
    then show ?thesis by simp
  qed
  from c1 c2 c3 c4 c5 c6 c7 show ?thesis by blast
qed


lemma recording_state:
  "run [VoiceStart 7 ''phone'', VoiceChunk ''phone'' long_chunk] voice_init =
     one_session ''phone'' (new_session\<lparr>chunks := [long_chunk], totalBytes := 4000\<rparr>)
       (Some (0, 7)) (\<lambda>c. None) [] 0 (Some 0)"
  by (simp add: start_one chunk_one new_session_def long_chunk_def)

lemma sending_state:
  "run [VoiceStart 7 ''phone'', VoiceChunk ''phone'' long_chunk, VoiceSend 7 ''phone''] voice_init =
     one_session ''phone''
       (new_session\<lparr>chunks := [long_chunk], totalBytes := 4000, partialTimer := None\<rparr>)
       None ((\<lambda>c. None)(0 := Some (FinalCall 0 7 ''phone'' long_chunk))) [] (Suc 0) (Some 0)"
proof -
  have "handleVoiceSend 7 ''phone''
          (one_session ''phone'' (new_session\<lparr>chunks := [long_chunk], totalBytes := 4000\<rparr>)
             (Some (0, 7)) (\<lambda>c. None) [] 0 (Some 0)) =
        one_session ''phone''
          ((new_session\<lparr>chunks := [long_chunk], totalBytes := 4000\<rparr>)\<lparr>partialTimer := None\<rparr>) None
          ((\<lambda>c. None)(0 := Some (FinalCall 0 7 ''phone''
              (concat (chunks (new_session\<lparr>chunks := [long_chunk], totalBytes := 4000\<rparr>))))))
          [] (Suc 0) (Some 0)"
    by (rule send_one) (simp_all add: new_session_def)
  then show ?thesis
    using recording_state by (simp add: new_session_def)
qed

text \<open>The same on a recording of one phone, with a second device that never started one.\<close>

lemma voice_teardown_example:
  "activeSessions
     (handleVoiceCancel ''phone''
        (run [VoiceStart 7 ''phone'', VoiceChunk ''phone'' long_chunk] voice_init)) ''phone'' = None
   \<and> timers
       (handleVoiceCancel ''phone''
          (run [VoiceStart 7 ''phone'', VoiceChunk ''phone'' long_chunk] voice_init)) 0 \<noteq> Some (0, 7)
   \<and> timers
       (handleVoiceSend 7 ''phone''
          (run [VoiceStart 7 ''phone'', VoiceChunk ''phone'' long_chunk] voice_init)) 0 \<noteq> Some (0, 7)
   \<and> activeSessions
       (handleVoiceSend 7 ''phone'' (run [VoiceStart 7 ''phone''] voice_init)) ''phone'' = None
   \<and> activeSessions
       (transcription_returns 0 None
          (run [VoiceStart 7 ''phone'', VoiceChunk ''phone'' long_chunk, VoiceSend 7 ''phone'']
             voice_init)) ''phone'' = None
   \<and> timers
       (transcription_returns 0 None
          (run [VoiceStart 7 ''phone'', VoiceChunk ''phone'' long_chunk, VoiceSend 7 ''phone'']
             voice_init)) 0 \<noteq> Some (0, 7)
   \<and> handleVoiceChunk ''tablet'' chunk800
        (run [VoiceStart 7 ''phone'', VoiceChunk ''phone'' long_chunk] voice_init)
      = run [VoiceStart 7 ''phone'', VoiceChunk ''phone'' long_chunk] voice_init"
proof -
  define s0 where "s0 = run [VoiceStart 7 ''phone''] voice_init"
  define s1 where "s1 = run [VoiceStart 7 ''phone'', VoiceChunk ''phone'' long_chunk] voice_init"
  define s2 where "s2 = run [VoiceStart 7 ''phone'', VoiceChunk ''phone'' long_chunk,
                               VoiceSend 7 ''phone''] voice_init"
  have r0: "activeSessions s0 ''phone'' = Some 0 \<and> heap s0 0 = Some new_session"
    and short: "totalBytes new_session < MIN_AUDIO_BYTES"
    by (simp_all add: s0_def start_one one_session_def new_session_def MIN_AUDIO_BYTES_def)
  have r1: "activeSessions s1 ''phone'' = Some 0"
    and h1: "activeSessions s1 ''phone'' = Some 0
             \<and> heap s1 0 = Some (new_session\<lparr>chunks := [long_chunk], totalBytes := 4000\<rparr>)"
    and u1: "activeSessions s1 ''tablet'' = None"
    unfolding s1_def recording_state by (simp_all add: one_session_def)
  have f2: "calls s2 0 = Some (FinalCall 0 7 ''phone'' long_chunk)"
    unfolding s2_def sending_state by (simp add: one_session_def)
  note t0 = voice_teardown[OF s0_def, of "''phone''" 7 chunk800]
  note t1 = voice_teardown[OF s1_def, of "''phone''" 7 chunk800]
  note t1' = voice_teardown[OF s1_def, of "''tablet''" 7 chunk800]
  note t2 = voice_teardown[OF s2_def, of "''phone''" 7 chunk800]
  from t1 have a: "activeSessions (handleVoiceCancel ''phone'' s1) ''phone'' = None" by blast
  from t1 r1 have b: "timers (handleVoiceCancel ''phone'' s1) 0 \<noteq> Some (0, 7)" by blast
  from t1 h1 have c: "timers (handleVoiceSend 7 ''phone'' s1) 0 \<noteq> Some (0, 7)" by blast
  from t0 r0 short have d: "activeSessions (handleVoiceSend 7 ''phone'' s0) ''phone'' = None"
    by blast
  from t2 f2 have e: "activeSessions (transcription_returns 0 None s2) ''phone'' = None"
    and f: "timers (transcription_returns 0 None s2) 0 \<noteq> Some (0, 7)" by blast+
  from t1' u1 have g: "handleVoiceChunk ''tablet'' chunk800 s1 = s1" by blast
  from a b c d e f g show ?thesis unfolding s0_def s1_def s2_def by blast
qed

text \<open>
  C9 does not hold of \<^verbatim>\<open>handleVoiceSend\<close>. A device sends a recording of 4000
  bytes; while the final transcription is under way it starts a second recording and
  sends a chunk of it; then the transcription returns. The end of
  \<^verbatim>\<open>handleVoiceSend\<close> removes from the map the session that is registered for the
  device at that moment, here the second one, and does not stop its timer, as
  \<^verbatim>\<open>cleanupSession\<close> does before it removes a session. So when \<open>voice_send\<close> has
  completed, with the final transcript sent, no session is registered for the device and
  the timer that the second \<open>voice_start\<close> set for it (timer 1, of session 1) is live.
  A \<open>voice_cancel\<close> that follows finds no session and leaves the timer live; when the
  timer fires, a partial transcript of the second recording is sent to the device.
\<close>

theorem voice_send_unregisters_newer_session:
  "activeSessions (run overlapping_send voice_init) ''phone'' = None
   \<and> timers (run overlapping_send voice_init) 1 = Some (1, 7)
   \<and> sent (run overlapping_send voice_init) = [(7, transcript_final ''hello'')]
   \<and> activeSessions (run (overlapping_send @ [VoiceCancel ''phone'']) voice_init) ''phone'' = None
   \<and> timers (run (overlapping_send @ [VoiceCancel ''phone'']) voice_init) 1 = Some (1, 7)
   \<and> sent (run (overlapping_send @ [VoiceCancel ''phone'', Tick 1, Reply 1 (Some ''ghost'')])
        voice_init) = [(7, transcript_final ''hello''), (7, transcript_partial ''ghost'')]"
  by (simp add: overlapping_send_def handleVoiceStart_def cleanupSession_def voice_init_def
        handleVoiceChunk_def handleVoiceSend_def handleVoiceCancel_def clearInterval_def
        timer_fires_def transcription_returns_def finish_send_def sendToDevice_def
        MIN_AUDIO_BYTES_def long_chunk_def concatChunks_def Let_def)

end
